theory Spec2Isabelle
  imports Main "HOL-Library.Multiset"
begin

section \<open>Todo Canvas: data mapper, derived views, quick-add and completion cascades\<close>

text \<open>
  The development follows the App component of the repository (the version with the
  states inbox, today, active and done, with project status and with the completion
  cascade). The repository also holds an earlier version of the component, with seven
  task states and without cascade; its \<open>toIsoString\<close>, \<open>mapTaskDoc\<close>, \<open>inboxTasks\<close> and
  \<open>addQuickTask\<close> read the same as the ones modelled here.

  React state is passed explicitly: a handler takes the state and returns an outcome,
  which is the state it leaves, the trace of what it did in program order, and the
  error it ended with, if any. The remote document store is the writes in that trace
  together with an oracle that says how each write ends; the blocking confirmation
  prompt is the answer the user would give; every reading of the clock inside one
  handler run is the same ISO string \<open>now\<close>.

  Names: a record field cannot be called \<open>id\<close> or \<open>text\<close> here and the records share
  field names in the source, so the fields of a task carry the prefix \<open>t_\<close>, those of a
  project \<open>p_\<close> and those of a patch (the source's \<open>Partial<Task>\<close>) \<open>patch_\<close>.
\<close>

subsection \<open>Numbers and text\<close>

text \<open>
  A JavaScript number is a value or NaN. The values are taken from the integers, which
  is what the application writes (orders in steps of 10); the comparator of the sorts
  reads a fraction or an infinity the way it reads an integer, by the sign of the
  difference, and only NaN, which \<open>typeof\<close> calls a number too, makes that difference
  NaN. \<open>jsSub\<close> is \<open>a - b\<close>, \<open>jsAdd\<close> is \<open>a + b\<close>, \<open>jsMax\<close> is \<open>Math.max(a, b)\<close>, \<open>jsLe\<close> is \<open>a <= b\<close>.
\<close>

datatype jsnum = Number int | NaN

fun jsSub :: "jsnum \<Rightarrow> jsnum \<Rightarrow> jsnum" where
  "jsSub (Number a) (Number b) = Number (a - b)"
| "jsSub a b = NaN"

fun jsAdd :: "jsnum \<Rightarrow> jsnum \<Rightarrow> jsnum" where
  "jsAdd (Number a) (Number b) = Number (a + b)"
| "jsAdd a b = NaN"

fun jsMax :: "jsnum \<Rightarrow> jsnum \<Rightarrow> jsnum" where
  "jsMax (Number a) (Number b) = Number (max a b)"
| "jsMax a b = NaN"

fun jsLe :: "jsnum \<Rightarrow> jsnum \<Rightarrow> bool" where
  "jsLe (Number a) (Number b) = (a \<le> b)"
| "jsLe a b = False"

fun theNumber :: "jsnum \<Rightarrow> int" where
  "theNumber (Number v) = v"
| "theNumber NaN = 0"

text \<open>
  Identifiers, timestamps and stored strings are only compared with each other or
  with the empty string, so they are \<open>string\<close>s. The text the user types is inspected
  code unit by code unit by \<open>trim\<close>: it is a list of UTF-16 code units. \<open>js\<close> writes
  such a text from an ASCII literal.
\<close>

type_synonym jsstring = "nat list"

definition js :: "string \<Rightarrow> jsstring" where
  "js s = map of_char s"

text \<open>
  \<open>Array.prototype.sort(cmp)\<close>. The language fixes the result when the comparator is
  consistent: the stable sort. When it is not, the result is some permutation that
  the engine chooses. The model is the insertion sort that moves an element past
  another only when the comparator returns a number above zero; a comparator result
  of NaN counts as zero, as the language says. On a consistent comparator this is the
  stable sort.
\<close>

fun positive :: "jsnum \<Rightarrow> bool" where
  "positive (Number v) = (0 < v)"
| "positive NaN = False"

fun insertBy :: "('a \<Rightarrow> 'a \<Rightarrow> jsnum) \<Rightarrow> 'a \<Rightarrow> 'a list \<Rightarrow> 'a list" where
  "insertBy cmp x [] = [x]"
| "insertBy cmp x (y # ys) = (if positive (cmp x y) then y # insertBy cmp x ys else x # y # ys)"

definition sortJs :: "('a \<Rightarrow> 'a \<Rightarrow> jsnum) \<Rightarrow> 'a list \<Rightarrow> 'a list" where
  "sortJs cmp xs = foldr (insertBy cmp) xs []"

subsection \<open>Stored values\<close>

text \<open>
  What \<open>docSnap.data()\<close> can hold in a field: the value types of the document store. A
  timestamp object carries the ISO string that \<open>toDate().toISOString()\<close> yields for it; a
  map is a plain object with the listed keys and no methods; \<open>JOpaque\<close> stands for the
  remaining object kinds (references, geo points, bytes), none of which has a \<open>toDate\<close>
  property. An absent field reads as \<open>undefined\<close>, which is \<open>None\<close> of the lookup.
\<close>

datatype jsval =
    JNull
  | JBool bool
  | JNum jsnum
  | JStr string
  | JTimestamp string
  | JMap "(string \<times> jsval) list"
  | JArray "jsval list"
  | JOpaque

type_synonym rawdoc = "string \<Rightarrow> jsval option"

datatype error = TypeError | RangeError | RemoteRejected

text \<open>\<open>!value\<close>: undefined, null, false, 0, NaN and the empty string are falsy.\<close>

fun falsy :: "jsval option \<Rightarrow> bool" where
  "falsy None = True"
| "falsy (Some JNull) = True"
| "falsy (Some (JBool b)) = (\<not> b)"
| "falsy (Some (JNum n)) = (n = Number 0 \<or> n = NaN)"
| "falsy (Some (JStr s)) = (s = [])"
| "falsy (Some v) = False"

text \<open>\<open>typeof value === 'object' && 'toDate' in value\<close>, for a value that is not falsy.\<close>

fun hasToDate :: "jsval option \<Rightarrow> bool" where
  "hasToDate (Some (JTimestamp stamp)) = True"
| "hasToDate (Some (JMap kvs)) = (''toDate'' \<in> set (map fst kvs))"
| "hasToDate v = False"

text \<open>
  \<open>timestamp.toDate().toISOString()\<close>: a timestamp object converts; on a map the property
  \<open>toDate\<close> is stored data, not a function, and the call raises a TypeError.
  \<^verbatim>\<open>
  const toIsoString = (value: unknown) => {
    if (!value) { return null }
    if (typeof value === 'string') { return value }
    if (typeof value === 'object' && 'toDate' in value) {
      const timestamp = value as { toDate: () => Date }
      return timestamp.toDate().toISOString()
    }
    return null
  }
  \<close>
\<close>

fun callToDate :: "jsval option \<Rightarrow> error + string" where
  "callToDate (Some (JTimestamp stamp)) = Inr stamp"
| "callToDate v = Inl TypeError"

fun toIsoString :: "jsval option \<Rightarrow> error + string option" where
  "toIsoString value =
     (if falsy value then Inr None
      else case value of
        Some (JStr s) \<Rightarrow> Inr (Some s)
      | _ \<Rightarrow>
        (if hasToDate value
         then (case callToDate value of Inl e \<Rightarrow> Inl e | Inr stamp \<Rightarrow> Inr (Some stamp))
         else Inr None))"

text \<open>\<open>a ?? b\<close>: \<open>b\<close> when \<open>a\<close> is undefined or null, else \<open>a\<close>.\<close>

fun nullish :: "jsval option \<Rightarrow> jsval \<Rightarrow> jsval" where
  "nullish None d = d"
| "nullish (Some JNull) d = d"
| "nullish (Some v) d = v"

text \<open>\<open>typeof data.order === 'number' ? data.order : 0\<close>\<close>

fun numberOr0 :: "jsval option \<Rightarrow> jsnum" where
  "numberOr0 (Some (JNum n)) = n"
| "numberOr0 v = Number 0"

subsection \<open>Tasks and projects\<close>

datatype TaskState = Inbox | Today | Active | Done

datatype ProjectState = ProjectActive | ProjectDone

datatype ViewMode = ViewInbox | ViewToday | ViewProject

text \<open>
  One record shape for a task. The application works on \<open>Task\<close>, the shape with the
  declared field types. The mapper's result has the same fields, but the source only
  casts the stored text, references and state (\<open>data.state as TaskState\<close>), so at run
  time these four fields hold whatever the document held: \<open>MappedTask\<close>.
\<close>

record ('s, 'r, 'st) TaskShape =
  t_id :: string
  t_text :: 's
  t_projectId :: 'r
  t_parentId :: 'r
  t_state :: 'st
  t_createdAt :: string
  t_updatedAt :: string
  t_dueAt :: "string option"
  t_scheduledAt :: "string option"
  t_doneAt :: "string option"
  t_order :: jsnum

type_synonym Task = "(jsstring, string option, TaskState) TaskShape"
type_synonym MappedTask = "(jsval, jsval, jsval) TaskShape"

record ('n, 'st) ProjectShape =
  p_id :: string
  p_name :: 'n
  p_state :: 'st
  p_order :: jsnum
  p_createdAt :: string

type_synonym Project = "(string, ProjectState) ProjectShape"
type_synonym MappedProject = "(jsval, jsval) ProjectShape"

subsection \<open>Data mapper\<close>

text \<open>
  The object literal evaluates its fields in order, so the first conversion that raises
  ends the call. \<open>orNow\<close> is \<open>toIsoString(x) ?? nowIso()\<close>.
  \<^verbatim>\<open>
  const mapTaskDoc = (id: string, data: Partial<Task>) => {
    return {
      id,
      text: data.text ?? '',
      projectId: data.projectId ?? null,
      parentId: data.parentId ?? null,
      state: (data.state as TaskState) ?? 'inbox',
      createdAt: toIsoString(data.createdAt) ?? nowIso(),
      updatedAt: toIsoString(data.updatedAt) ?? nowIso(),
      dueAt: toIsoString(data.dueAt),
      scheduledAt: toIsoString(data.scheduledAt),
      doneAt: toIsoString(data.doneAt),
      order: typeof data.order === 'number' ? data.order : 0,
    }
  }
  \<close>
\<close>

definition orNow :: "string \<Rightarrow> string option \<Rightarrow> string" where
  "orNow now v = (case v of None \<Rightarrow> now | Some s \<Rightarrow> s)"

definition mapTaskDoc :: "string \<Rightarrow> string \<Rightarrow> rawdoc \<Rightarrow> error + MappedTask" where
  "mapTaskDoc now ident data =
     (case toIsoString (data ''createdAt'') of Inl e \<Rightarrow> Inl e | Inr created \<Rightarrow>
      case toIsoString (data ''updatedAt'') of Inl e \<Rightarrow> Inl e | Inr updated \<Rightarrow>
      case toIsoString (data ''dueAt'') of Inl e \<Rightarrow> Inl e | Inr due \<Rightarrow>
      case toIsoString (data ''scheduledAt'') of Inl e \<Rightarrow> Inl e | Inr scheduled \<Rightarrow>
      case toIsoString (data ''doneAt'') of Inl e \<Rightarrow> Inl e | Inr doneAt \<Rightarrow>
        Inr \<lparr> t_id = ident,
              t_text = nullish (data ''text'') (JStr ''''),
              t_projectId = nullish (data ''projectId'') JNull,
              t_parentId = nullish (data ''parentId'') JNull,
              t_state = nullish (data ''state'') (JStr ''inbox''),
              t_createdAt = orNow now created,
              t_updatedAt = orNow now updated,
              t_dueAt = due,
              t_scheduledAt = scheduled,
              t_doneAt = doneAt,
              t_order = numberOr0 (data ''order'') \<rparr>)"

definition mapProjectDoc :: "string \<Rightarrow> string \<Rightarrow> rawdoc \<Rightarrow> error + MappedProject" where
  "mapProjectDoc now ident data =
     (case toIsoString (data ''createdAt'') of Inl e \<Rightarrow> Inl e | Inr created \<Rightarrow>
        Inr \<lparr> p_id = ident,
              p_name = nullish (data ''name'') (JStr ''Untitled''),
              p_state = nullish (data ''state'') (JStr ''active''),
              p_order = numberOr0 (data ''order''),
              p_createdAt = orNow now created \<rparr>)"

subsection \<open>Application state, remote store and handler outcomes\<close>

record AppState =
  tasks :: "Task list"
  projects :: "Project list"
  view :: ViewMode
  selectedProjectId :: "string option"
  quickText :: jsstring

text \<open>
  \<open>Partial<Task>\<close>: every field may be absent (\<open>None\<close>); a nullable field that is present
  may be present as null (\<open>Some None\<close>).
\<close>

record TaskPatch =
  patch_id :: "string option"
  patch_text :: "jsstring option"
  patch_projectId :: "string option option"
  patch_parentId :: "string option option"
  patch_state :: "TaskState option"
  patch_createdAt :: "string option"
  patch_updatedAt :: "string option"
  patch_dueAt :: "string option option"
  patch_scheduledAt :: "string option option"
  patch_doneAt :: "string option option"
  patch_order :: "jsnum option"

text \<open>
  The writes the handlers send to the store:
  \<^item> \<open>AddTask text projectId order\<close> is \<open>addDoc(collection(db, 'tasks'), taskData)\<close>, whose
    other fields are constants (no parent, state inbox, server timestamps, no dates);
  \<^item> \<open>UpdateTaskDone i\<close> is \<open>updateDoc(doc(db, 'tasks', i), {state: 'done', doneAt:
    serverTimestamp(), updatedAt: serverTimestamp()})\<close>;
  \<^item> \<open>UpdateTask i patch clear\<close> is \<open>updateDoc(doc(db, 'tasks', i), updates)\<close> with
    \<open>updates = {...patch, updatedAt: serverTimestamp()}\<close> and, when \<open>clear\<close> holds,
    \<open>updates.doneAt = null\<close>;
  \<^item> \<open>UpdateProject i s\<close> is \<open>updateDoc(doc(db, 'projects', i), {state: s})\<close>.
\<close>

datatype RemoteWrite =
    AddTask jsstring string jsnum
  | UpdateTaskDone string
  | UpdateTask string TaskPatch bool
  | UpdateProject string ProjectState

text \<open>
  How the store answers: \<open>addDoc\<close> resolves with the generated identifier or rejects
  (\<open>None\<close>); \<open>updateDoc\<close> resolves (\<open>True\<close>) or rejects.
\<close>

record Remote =
  addDoc :: "RemoteWrite \<Rightarrow> string option"
  updateDoc :: "RemoteWrite \<Rightarrow> bool"

text \<open>
  What a handler does, in program order: the prompt it shows (with the count in its
  message), the state setters it calls and the writes it dispatches.
\<close>

datatype Event =
    Prompt nat
  | SetTasks
  | SetProjects
  | SetQuickText
  | SetView
  | Dispatch RemoteWrite

record Outcome =
  final :: AppState
  trace :: "Event list"
  raised :: "error option"

subsection \<open>Derived views\<close>

text \<open>
  The three views filter the task list and sort it with the comparator
  \<open>(a, b) => a.order - b.order\<close>, which is \<open>byOrder\<close>. \<open>projectTasks\<close> is empty when no
  project is selected, that is when \<open>!selectedProjectId\<close>: null or the empty string.
  \<^verbatim>\<open>
  tasks.filter((task) => task.state === 'inbox').sort((a, b) => a.order - b.order)
  tasks.filter((task) => task.state === 'today').sort((a, b) => a.order - b.order)
  if (!selectedProjectId) { return [] }
  return tasks.filter((task) => task.projectId === selectedProjectId)
              .sort((a, b) => a.order - b.order)
  \<close>
\<close>

definition byOrder :: "Task \<Rightarrow> Task \<Rightarrow> jsnum" where
  "byOrder a b = jsSub (t_order a) (t_order b)"

definition inboxTasks :: "Task list \<Rightarrow> Task list" where
  "inboxTasks ts = sortJs byOrder (filter (\<lambda>task. t_state task = Inbox) ts)"

definition todayTasks :: "Task list \<Rightarrow> Task list" where
  "todayTasks ts = sortJs byOrder (filter (\<lambda>task. t_state task = Today) ts)"

definition projectTasks :: "string option \<Rightarrow> Task list \<Rightarrow> Task list" where
  "projectTasks sel ts =
     (case sel of
        None \<Rightarrow> []
      | Some p \<Rightarrow>
          if p = [] then []
          else sortJs byOrder (filter (\<lambda>task. t_projectId task = Some p) ts))"

subsection \<open>Quick add\<close>

text \<open>
  \<open>String.prototype.trim\<close> removes white space and line terminators from both ends.
  These are the code points TAB, LF, VT, FF, CR, SPACE, NO-BREAK SPACE, U+1680,
  U+2000 to U+200A, LINE SEPARATOR U+2028, PARAGRAPH SEPARATOR U+2029, U+202F, U+205F,
  IDEOGRAPHIC SPACE U+3000 and U+FEFF. Each is a single UTF-16 code unit, and no half
  of a surrogate pair is among them, so trimming code units is trimming code points.
\<close>

definition isWhiteSpace :: "nat \<Rightarrow> bool" where
  "isWhiteSpace c =
     (c \<in> set [0x0009, 0x000A, 0x000B, 0x000C, 0x000D, 0x0020, 0x00A0, 0x1680,
               0x2000, 0x2001, 0x2002, 0x2003, 0x2004, 0x2005, 0x2006, 0x2007, 0x2008,
               0x2009, 0x200A, 0x2028, 0x2029, 0x202F, 0x205F, 0x3000, 0xFEFF])"

definition trim :: "jsstring \<Rightarrow> jsstring" where
  "trim s = rev (dropWhile isWhiteSpace (rev (dropWhile isWhiteSpace s)))"

text \<open>
  \<^verbatim>\<open>
  const rootOrders = tasks.filter((task) => task.parentId === null).map((task) => task.order)
  const nextOrder = (rootOrders.length ? Math.max(...rootOrders) : 0) + 10
  \<close>
\<close>

definition nextOrder :: "Task list \<Rightarrow> jsnum" where
  "nextOrder ts =
     (let rootOrders = map t_order (filter (\<lambda>task. t_parentId task = None) ts)
      in jsAdd (case rootOrders of [] \<Rightarrow> Number 0 | x # xs \<Rightarrow> fold jsMax xs x) (Number 10))"

text \<open>
  The handler returns at once on a blank text. Otherwise it awaits the insert, and only
  when that has resolved, with the reference of the new document, does it call the
  setters; a rejected insert ends it there.
  \<^verbatim>\<open>
  const trimmed = quickText.trim()
  if (!trimmed) { return }
  ...
  const docRef = await addDoc(collection(db, 'tasks'), taskData)
  const newTask: Task = { id: docRef.id, text: taskData.text, ... }
  setTasks((prev) => [...prev, newTask])
  setQuickText('')
  setView('inbox')
  \<close>
\<close>

definition addQuickTask :: "Remote \<Rightarrow> string \<Rightarrow> AppState \<Rightarrow> Outcome" where
  "addQuickTask remote now st =
     (let trimmed = trim (quickText st) in
      if trimmed = [] then \<lparr> final = st, trace = [], raised = None \<rparr>
      else
        let taskData = AddTask trimmed ''p-default'' (nextOrder (tasks st))
        in case addDoc remote taskData of
             None \<Rightarrow> \<lparr> final = st, trace = [Dispatch taskData], raised = Some RemoteRejected \<rparr>
           | Some docId \<Rightarrow>
               let newTask = \<lparr> t_id = docId,
                               t_text = trimmed,
                               t_projectId = Some ''p-default'',
                               t_parentId = None,
                               t_state = Inbox,
                               t_createdAt = now,
                               t_updatedAt = now,
                               t_dueAt = None,
                               t_scheduledAt = None,
                               t_doneAt = None,
                               t_order = nextOrder (tasks st) \<rparr>
               in \<lparr> final = st\<lparr> tasks := tasks st @ [newTask], quickText := [], view := ViewInbox \<rparr>,
                    trace = [Dispatch taskData, SetTasks, SetQuickText, SetView],
                    raised = None \<rparr>)"

subsection \<open>Completion cascade of a task\<close>

text \<open>
  \<open>getDescendantTasks\<close> recurses once per level of the task forest and has no cycle
  check. The first argument is the depth of call stack that is left: at depth 0 the
  engine raises a RangeError, which is \<open>None\<close>. On a cyclic parent relation every depth
  is exhausted.
  \<^verbatim>\<open>
  const getDescendantTasks = (taskId: string, allTasks: Task[]): Task[] => {
    const children = allTasks.filter((t) => t.parentId === taskId)
    const descendants: Task[] = [...children]
    children.forEach((child) => {
      descendants.push(...getDescendantTasks(child.id, allTasks))
    })
    return descendants
  }
  \<close>
\<close>

fun getDescendantTasks :: "nat \<Rightarrow> string \<Rightarrow> Task list \<Rightarrow> Task list option" where
  "getDescendantTasks 0 taskId allTasks = None"
| "getDescendantTasks (Suc stack) taskId allTasks =
     (let children = filter (\<lambda>t. t_parentId t = Some taskId) allTasks
      in map_option (\<lambda>below. children @ concat below)
           (those (map (\<lambda>child. getDescendantTasks stack (t_id child) allTasks) children)))"

text \<open>\<open>{...task, ...patch}\<close>: the fields present in the patch replace those of the task.\<close>

definition override :: "'a \<Rightarrow> 'a option \<Rightarrow> 'a" where
  "override old new = (case new of None \<Rightarrow> old | Some v \<Rightarrow> v)"

definition spreadPatch :: "Task \<Rightarrow> TaskPatch \<Rightarrow> Task" where
  "spreadPatch task patch =
     \<lparr> t_id = override (t_id task) (patch_id patch),
       t_text = override (t_text task) (patch_text patch),
       t_projectId = override (t_projectId task) (patch_projectId patch),
       t_parentId = override (t_parentId task) (patch_parentId patch),
       t_state = override (t_state task) (patch_state patch),
       t_createdAt = override (t_createdAt task) (patch_createdAt patch),
       t_updatedAt = override (t_updatedAt task) (patch_updatedAt patch),
       t_dueAt = override (t_dueAt task) (patch_dueAt patch),
       t_scheduledAt = override (t_scheduledAt task) (patch_scheduledAt patch),
       t_doneAt = override (t_doneAt task) (patch_doneAt patch),
       t_order = override (t_order task) (patch_order patch) \<rparr>"

definition markDone :: "string \<Rightarrow> Task \<Rightarrow> Task" where
  "markDone now task = task\<lparr> t_state := Done, t_doneAt := Some now, t_updatedAt := now \<rparr>"

definition settled :: "Remote \<Rightarrow> RemoteWrite list \<Rightarrow> error option" where
  "settled remote writes = (if list_all (updateDoc remote) writes then None else Some RemoteRejected)"

text \<open>
  \<open>updateTask\<close>. With \<open>patch.state === 'done'\<close>:
  \<^verbatim>\<open>
  const descendants = getDescendantTasks(id, tasks)
  const incompletedDescendants = descendants.filter((t) => t.state !== 'done')
  if (incompletedDescendants.length > 0) {
    const confirmed = window.confirm(...)
    if (!confirmed) { return }
  }
  const allToUpdate = [id, ...descendants.map((t) => t.id)]
  setTasks((prev) => prev.map((task) => {
    if (!allToUpdate.includes(task.id)) { return task }
    return { ...task, state: 'done' as TaskState, doneAt: nowIso(), updatedAt: nowIso() }
  }))
  await Promise.all(allToUpdate.map((taskId) =>
    updateDoc(doc(db, 'tasks', taskId),
      { state: 'done', doneAt: serverTimestamp(), updatedAt: serverTimestamp() })))
  return
  \<close>
  and otherwise:
  \<^verbatim>\<open>
  setTasks((prev) => prev.map((task) => {
    if (task.id !== id) { return task }
    let doneAt = task.doneAt
    if (patch.state && task.state === 'done') { doneAt = null }
    return { ...task, ...patch, doneAt, updatedAt: nowIso() }
  }))
  const updates: Record<string, unknown> = { ...patch, updatedAt: serverTimestamp() }
  const currentTask = tasks.find((t) => t.id === id)
  if (patch.state && currentTask?.state === 'done') { updates.doneAt = null }
  await updateDoc(doc(db, 'tasks', id), updates)
  \<close>
  \<open>Promise.all\<close> over the mapped list calls \<open>updateDoc\<close> for every element before anything
  is awaited, and rejects if one of the writes does (\<open>settled\<close>).
\<close>

definition updateTask ::
  "nat \<Rightarrow> bool \<Rightarrow> Remote \<Rightarrow> string \<Rightarrow> string \<Rightarrow> TaskPatch \<Rightarrow> AppState \<Rightarrow> Outcome" where
  "updateTask stack confirmed remote now ident patch st =
     (if patch_state patch = Some Done then
        (case getDescendantTasks stack ident (tasks st) of
           None \<Rightarrow> \<lparr> final = st, trace = [], raised = Some RangeError \<rparr>
         | Some descendants \<Rightarrow>
             let incompletedDescendants = filter (\<lambda>t. t_state t \<noteq> Done) descendants;
                 asked = (if length incompletedDescendants > 0
                          then [Prompt (length incompletedDescendants)] else [])
             in if length incompletedDescendants > 0 \<and> \<not> confirmed
                then \<lparr> final = st, trace = asked, raised = None \<rparr>
                else
                  let allToUpdate = ident # map t_id descendants;
                      writes = map UpdateTaskDone allToUpdate
                  in \<lparr> final = st\<lparr> tasks :=
                                   map (\<lambda>task. if t_id task \<notin> set allToUpdate then task
                                               else markDone now task) (tasks st) \<rparr>,
                       trace = asked @ SetTasks # map Dispatch writes,
                       raised = settled remote writes \<rparr>)
      else
        let currentTask = find (\<lambda>t. t_id t = ident) (tasks st);
            clear = (patch_state patch \<noteq> None \<and>
                     (case currentTask of None \<Rightarrow> False | Some cur \<Rightarrow> t_state cur = Done));
            updates = UpdateTask ident patch clear
        in \<lparr> final = st\<lparr> tasks :=
                         map (\<lambda>task. if t_id task \<noteq> ident then task
                                     else (spreadPatch task patch)
                                            \<lparr> t_doneAt := (if patch_state patch \<noteq> None \<and> t_state task = Done
                                                            then None else t_doneAt task),
                                              t_updatedAt := now \<rparr>) (tasks st) \<rparr>,
             trace = [SetTasks, Dispatch updates],
             raised = settled remote [updates] \<rparr>)"

subsection \<open>Completion cascade of a project\<close>

text \<open>
  The \<open>onChange\<close> handler of the project status select, which is rendered for the
  selected project \<open>sel\<close> (never for \<open>p-default\<close>). \<open>finishProject\<close> is its tail: the write
  of the project's own state, awaited, and then the local project list.
  \<^verbatim>\<open>
  if (newState === 'done') {
    const projectTasks = tasks.filter((t) => t.projectId === selectedProjectId)
    const incompletedTasks = projectTasks.filter((t) => t.state !== 'done')
    if (incompletedTasks.length > 0) {
      const confirmed = window.confirm(...)
      if (!confirmed) { return }
      setTasks((prev) => prev.map((task) => {
        if (task.projectId !== selectedProjectId || task.state === 'done') { return task }
        return { ...task, state: 'done' as TaskState, doneAt: nowIso(), updatedAt: nowIso() }
      }))
      await Promise.all(incompletedTasks.map((task) =>
        updateDoc(doc(db, 'tasks', task.id),
          { state: 'done', doneAt: serverTimestamp(), updatedAt: serverTimestamp() })))
    }
  }
  const projectRef = doc(db, 'projects', selectedProjectId)
  await updateDoc(projectRef, { state: newState })
  const updatedProjects = projects.map((p) =>
    p.id === selectedProjectId ? { ...p, state: newState } : p)
  setProjects(updatedProjects)
  \<close>
\<close>

definition finishProject ::
  "Remote \<Rightarrow> string \<Rightarrow> ProjectState \<Rightarrow> Project list \<Rightarrow> AppState \<Rightarrow> Event list \<Rightarrow> Outcome" where
  "finishProject remote sel newState closureProjects st sofar =
     (let write = UpdateProject sel newState in
      if \<not> updateDoc remote write
      then \<lparr> final = st, trace = sofar @ [Dispatch write], raised = Some RemoteRejected \<rparr>
      else \<lparr> final = st\<lparr> projects :=
                         map (\<lambda>p. if p_id p = sel then p\<lparr> p_state := newState \<rparr> else p)
                           closureProjects \<rparr>,
             trace = sofar @ [Dispatch write, SetProjects],
             raised = None \<rparr>)"

definition projectStatusOnChange ::
  "bool \<Rightarrow> Remote \<Rightarrow> string \<Rightarrow> string \<Rightarrow> ProjectState \<Rightarrow> AppState \<Rightarrow> Outcome" where
  "projectStatusOnChange confirmed remote now sel newState st =
     (let ownedTasks = filter (\<lambda>t. t_projectId t = Some sel) (tasks st);
          incompletedTasks = filter (\<lambda>t. t_state t \<noteq> Done) ownedTasks
      in if newState = ProjectDone \<and> length incompletedTasks > 0 then
           (if \<not> confirmed
            then \<lparr> final = st, trace = [Prompt (length incompletedTasks)], raised = None \<rparr>
            else
              let st1 = st\<lparr> tasks :=
                              map (\<lambda>task. if t_projectId task \<noteq> Some sel \<or> t_state task = Done
                                          then task else markDone now task) (tasks st) \<rparr>;
                  writes = map (\<lambda>task. UpdateTaskDone (t_id task)) incompletedTasks;
                  sofar = Prompt (length incompletedTasks) # SetTasks # map Dispatch writes
              in if \<not> list_all (updateDoc remote) writes
                 then \<lparr> final = st1, trace = sofar, raised = Some RemoteRejected \<rparr>
                 else finishProject remote sel newState (projects st) st1 sofar)
         else finishProject remote sel newState (projects st) st [])"

subsection \<open>Notions used to state the properties\<close>

text \<open>
  The descendants of \<open>a\<close> in a task list: the tasks whose parent reference is \<open>a\<close>, and the
  descendants of those (transitive children via \<open>parentId\<close>).
\<close>

inductive descendant :: "Task list \<Rightarrow> string \<Rightarrow> Task \<Rightarrow> bool" for ts :: "Task list" where
  child: "t \<in> set ts \<Longrightarrow> t_parentId t = Some a \<Longrightarrow> descendant ts a t"
| below: "c \<in> set ts \<Longrightarrow> t_parentId c = Some a \<Longrightarrow> descendant ts (t_id c) t \<Longrightarrow> descendant ts a t"

text \<open>
  The parent relation has no cycle exactly when the identifiers can be ranked so that
  every task ranks below its parent; the rank of a task bounds the depth of the forest
  under it.
\<close>

definition ranked :: "(string \<Rightarrow> nat) \<Rightarrow> Task list \<Rightarrow> bool" where
  "ranked rank ts =
     list_all (\<lambda>t. case t_parentId t of None \<Rightarrow> True | Some p \<Rightarrow> rank (t_id t) < rank p) ts"

text \<open>A stored value on which the timestamp conversion raises: a map with a key \<open>toDate\<close>.\<close>

fun toDateIsData :: "jsval option \<Rightarrow> bool" where
  "toDateIsData (Some (JMap kvs)) = (''toDate'' \<in> set (map fst kvs))"
| "toDateIsData v = False"

definition taskStampsConvert :: "rawdoc \<Rightarrow> bool" where
  "taskStampsConvert d =
     list_all (\<lambda>field. \<not> toDateIsData (d field))
       [''createdAt'', ''updatedAt'', ''dueAt'', ''scheduledAt'', ''doneAt'']"

text \<open>A task list is ascending by order: \<open>a.order <= b.order\<close> for every task and every later one.\<close>

definition ascending :: "Task list \<Rightarrow> bool" where
  "ascending ts = sorted_wrt (\<lambda>a b. jsLe (t_order a) (t_order b)) ts"

text \<open>
  In a trace, the local task list is set before any write is dispatched: no dispatch
  stands before the first \<open>SetTasks\<close>.
\<close>

fun isDispatch :: "Event \<Rightarrow> bool" where
  "isDispatch (Dispatch w) = True"
| "isDispatch e = False"

definition localFirst :: "Event list \<Rightarrow> bool" where
  "localFirst tr = (filter isDispatch (takeWhile (\<lambda>e. e \<noteq> SetTasks) tr) = [])"

subsection \<open>Example data\<close>

text \<open>
  A store that accepts every write, the patch \<open>{ state: s }\<close> that the state controls
  pass to \<open>updateTask\<close>, and a small task forest in the shape of the seed data: \<open>t-3\<close> has
  the children \<open>t-4\<close> (active) and \<open>t-5\<close> (done since day 2); \<open>t-1\<close> is unrelated.
\<close>

definition acceptAll :: Remote where
  "acceptAll = \<lparr> addDoc = (\<lambda>w. Some ''doc-1''), updateDoc = (\<lambda>w. True) \<rparr>"

definition statePatch :: "TaskState \<Rightarrow> TaskPatch" where
  "statePatch s =
     \<lparr> patch_id = None, patch_text = None, patch_projectId = None, patch_parentId = None,
       patch_state = Some s, patch_createdAt = None, patch_updatedAt = None, patch_dueAt = None,
       patch_scheduledAt = None, patch_doneAt = None, patch_order = None \<rparr>"

definition exampleTask ::
  "string \<Rightarrow> string option \<Rightarrow> string option \<Rightarrow> TaskState \<Rightarrow> string option \<Rightarrow> int \<Rightarrow> Task" where
  "exampleTask i project parent s doneAt ord =
     \<lparr> t_id = i, t_text = js ''task'', t_projectId = project, t_parentId = parent, t_state = s,
       t_createdAt = ''day-1'', t_updatedAt = ''day-1'', t_dueAt = None, t_scheduledAt = None,
       t_doneAt = doneAt, t_order = Number ord \<rparr>"

definition exampleProjects :: "Project list" where
  "exampleProjects =
     [\<lparr> p_id = ''p-home'', p_name = ''Home'', p_state = ProjectActive, p_order = Number 10,
        p_createdAt = ''day-1'' \<rparr>,
      \<lparr> p_id = ''p-work'', p_name = ''Work'', p_state = ProjectActive, p_order = Number 20,
        p_createdAt = ''day-1'' \<rparr>]"

definition exampleState :: "Task list \<Rightarrow> string \<Rightarrow> AppState" where
  "exampleState ts q =
     \<lparr> tasks = ts, projects = exampleProjects, view = ViewProject,
       selectedProjectId = Some ''p-work'', quickText = js q \<rparr>"

definition familyTasks :: "Task list" where
  "familyTasks =
     [exampleTask ''t-1'' None None Inbox None 10,
      exampleTask ''t-3'' (Some ''p-work'') None Active None 10,
      exampleTask ''t-4'' (Some ''p-work'') (Some ''t-3'') Active None 10,
      exampleTask ''t-5'' (Some ''p-work'') (Some ''t-3'') Done (Some ''day-2'') 20]"

definition familyRank :: "string \<Rightarrow> nat" where
  "familyRank i = (if i = ''t-3'' then 1 else 0)"

text \<open>
  A project with three tasks, two active and one done; the done one was stored without
  a completion timestamp.
\<close>

definition workTasks :: "Task list" where
  "workTasks =
     [exampleTask ''t-3'' (Some ''p-work'') None Active None 10,
      exampleTask ''t-4'' (Some ''p-work'') None Active None 20,
      exampleTask ''t-6'' (Some ''p-work'') None Done None 30]"

text \<open>
  The example forest with two more tasks, \<open>x\<close> and \<open>y\<close>, each the parent of the other: a
  cycle that the parent selects allow, away from \<open>t-3\<close> and its children.
\<close>

definition elsewhereTasks :: "Task list" where
  "elsewhereTasks =
     familyTasks @
     [exampleTask ''x'' (Some ''p-home'') (Some ''y'') Active None 10,
      exampleTask ''y'' (Some ''p-home'') (Some ''x'') Active None 20]"

text \<open>Three inbox tasks with the orders 3, NaN and 1.\<close>

definition nanTasks :: "Task list" where
  "nanTasks =
     [exampleTask ''t-1'' None None Inbox None 3,
      (exampleTask ''t-2'' None None Inbox None 0)\<lparr> t_order := NaN \<rparr>,
      exampleTask ''t-3'' None None Inbox None 1]"

text \<open>Inbox tasks with the orders 20, 10 and 10, with an active task among them.\<close>

definition mixedTasks :: "Task list" where
  "mixedTasks =
     [exampleTask ''a'' None None Inbox None 20,
      exampleTask ''b'' None None Inbox None 10,
      exampleTask ''c'' (Some ''p-work'') None Active None 5,
      exampleTask ''d'' None None Inbox None 10]"

section \<open>Properties\<close>

subsection \<open>The descendant traversal\<close>

lemma those_Some_map: "those xs = Some ys \<Longrightarrow> xs = map Some ys"
  by (induction xs arbitrary: ys) (auto split: option.splits)

lemma those_map_Some: "those (map Some ys) = Some ys"
  by (induction ys) auto

lemma those_map_elem:
  assumes "those (map f xs) = Some ys" and "x \<in> set xs"
  shows "\<exists>y. f x = Some y \<and> y \<in> set ys"
proof -
  from assms(1) have eq: "map f xs = map Some ys" by (rule those_Some_map)
  from assms(2) have "f x \<in> set (map f xs)" by simp
  with eq have "f x \<in> set (map Some ys)" by simp
  then show ?thesis by auto
qed

lemma those_map_result:
  assumes "those (map f xs) = Some ys" and "y \<in> set ys"
  shows "\<exists>x \<in> set xs. f x = Some y"
proof -
  from assms(1) have eq: "map f xs = map Some ys" by (rule those_Some_map)
  from assms(2) have "Some y \<in> set (map Some ys)" by simp
  with eq have "Some y \<in> set (map f xs)" by simp
  then show ?thesis by auto
qed


lemma getDescendantTasks_Suc_Some:
  assumes "getDescendantTasks (Suc n) a ts = Some ds"
  shows "\<exists>lower. those (map (\<lambda>child. getDescendantTasks n (t_id child) ts)
        (filter (\<lambda>t. t_parentId t = Some a) ts)) = Some lower \<and>
    ds = filter (\<lambda>t. t_parentId t = Some a) ts @ concat lower"
proof -
  from assms have "map_option (\<lambda>below. filter (\<lambda>t. t_parentId t = Some a) ts @ concat below)
           (those (map (\<lambda>child. getDescendantTasks n (t_id child) ts) (filter (\<lambda>t. t_parentId t = Some a) ts))) = Some ds"
    by (simp only: getDescendantTasks.simps Let_def)
  then show ?thesis
    by (simp only: map_option_eq_Some) blast
qed

lemma getDescendantTasks_Suc_intro:
  assumes "those (map (\<lambda>child. getDescendantTasks n (t_id child) ts)
        (filter (\<lambda>t. t_parentId t = Some a) ts)) = Some lower"
  shows "getDescendantTasks (Suc n) a ts = Some (filter (\<lambda>t. t_parentId t = Some a) ts @ concat lower)"
  by (simp only: getDescendantTasks.simps Let_def assms option.map)

declare getDescendantTasks.simps [simp del]

lemma getDescendantTasks_0: "getDescendantTasks 0 a ts \<noteq> Some ds"
  by (simp add: getDescendantTasks.simps(1))

lemma getDescendantTasks_more_stack:
  "getDescendantTasks n a ts = Some ds \<Longrightarrow> getDescendantTasks (Suc n) a ts = Some ds"
proof (induction n arbitrary: a ds)
  case 0
  then show ?case by (simp add: getDescendantTasks_0)
next
  case (Suc n)
  let ?children = "filter (\<lambda>t. t_parentId t = Some a) ts"
  from Suc.prems obtain lower where
    lower: "those (map (\<lambda>child. getDescendantTasks n (t_id child) ts) ?children) = Some lower"
    and ds: "ds = ?children @ concat lower"
    using getDescendantTasks_Suc_Some by blast
  have "map (\<lambda>child. getDescendantTasks (Suc n) (t_id child) ts) ?children
      = map (\<lambda>child. getDescendantTasks n (t_id child) ts) ?children"
  proof (rule map_cong[OF refl])
    fix c assume c: "c \<in> set ?children"
    from those_map_elem[OF lower c]
    obtain r where r: "getDescendantTasks n (t_id c) ts = Some r" by blast
    from Suc.IH[OF r] r
    show "getDescendantTasks (Suc n) (t_id c) ts = getDescendantTasks n (t_id c) ts" by simp
  qed
  then have "those (map (\<lambda>child. getDescendantTasks (Suc n) (t_id child) ts) ?children) = Some lower"
    using lower by (simp only:)
  from getDescendantTasks_Suc_intro[OF this] ds show ?case by simp
qed

text \<open>A deeper stack gives the same result: the list does not depend on the depth left.\<close>

lemma getDescendantTasks_stack_mono:
  "getDescendantTasks n a ts = Some ds \<Longrightarrow> n \<le> m \<Longrightarrow> getDescendantTasks m a ts = Some ds"
proof (induction m)
  case 0
  then show ?case by simp
next
  case (Suc m)
  show ?case
  proof (cases "n = Suc m")
    case True
    with Suc.prems show ?thesis by simp
  next
    case False
    with Suc.prems have "n \<le> m" by simp
    with Suc.prems have "getDescendantTasks m a ts = Some ds" by (simp add: Suc.IH)
    then show ?thesis by (rule getDescendantTasks_more_stack)
  qed
qed

lemma getDescendantTasks_returns:
  assumes "ranked rank ts"
  shows "rank a < n \<Longrightarrow> \<exists>ds. getDescendantTasks n a ts = Some ds"
proof (induction n arbitrary: a)
  case 0
  then show ?case by simp
next
  case (Suc n)
  let ?children = "filter (\<lambda>t. t_parentId t = Some a) ts"
  let ?f = "\<lambda>c. getDescendantTasks n (t_id c) ts"
  have each: "\<exists>r. ?f c = Some r" if c: "c \<in> set ?children" for c
  proof -
    from c assms have "rank (t_id c) < rank a"
      by (auto simp: ranked_def list_all_iff split: option.splits)
    with Suc.prems have "rank (t_id c) < n" by simp
    then show ?thesis by (rule Suc.IH)
  qed
  have "map ?f ?children = map Some (map (\<lambda>c. the (?f c)) ?children)"
    unfolding map_map
  proof (rule map_cong[OF refl])
    fix c assume "c \<in> set ?children"
    then obtain r where "?f c = Some r" using each by blast
    then show "?f c = (Some \<circ> (\<lambda>c. the (?f c))) c" by simp
  qed
  then have "those (map ?f ?children) = Some (map (\<lambda>c. the (?f c)) ?children)"
    by (simp only: those_map_Some)
  from getDescendantTasks_Suc_intro[OF this] show ?case by blast
qed

lemma getDescendantTasks_sound:
  "getDescendantTasks n a ts = Some ds \<Longrightarrow> t \<in> set ds \<Longrightarrow> descendant ts a t"
proof (induction n arbitrary: a ds t)
  case 0
  then show ?case by (simp add: getDescendantTasks_0)
next
  case (Suc n)
  let ?children = "filter (\<lambda>t. t_parentId t = Some a) ts"
  from Suc.prems(1) obtain lower where
    lower: "those (map (\<lambda>child. getDescendantTasks n (t_id child) ts) ?children) = Some lower"
    and ds: "ds = ?children @ concat lower"
    using getDescendantTasks_Suc_Some by blast
  from Suc.prems(2) ds consider "t \<in> set ?children" | r where "r \<in> set lower" "t \<in> set r"
    by auto
  then show ?case
  proof cases
    case 1
    then show ?thesis by (simp add: descendant.child)
  next
    case 2
    from those_map_result[OF lower 2(1)]
    obtain c where c: "c \<in> set ?children" "getDescendantTasks n (t_id c) ts = Some r" by blast
    from c(2) 2(2) have "descendant ts (t_id c) t" by (rule Suc.IH)
    with c(1) show ?thesis by (auto intro: descendant.below)
  qed
qed

lemma getDescendantTasks_complete:
  "descendant ts a t \<Longrightarrow> getDescendantTasks n a ts = Some ds \<Longrightarrow> t \<in> set ds"
proof (induction arbitrary: n ds rule: descendant.induct)
  case (child t a)
  from child.prems obtain m where n: "n = Suc m" by (cases n) (auto simp: getDescendantTasks_0)
  from child.prems[unfolded n] obtain lower where
    "ds = filter (\<lambda>t. t_parentId t = Some a) ts @ concat lower"
    using getDescendantTasks_Suc_Some by blast
  with child.hyps show ?case by simp
next
  case (below c a t)
  from below.prems obtain m where n: "n = Suc m" by (cases n) (auto simp: getDescendantTasks_0)
  let ?children = "filter (\<lambda>t. t_parentId t = Some a) ts"
  from below.prems[unfolded n] obtain lower where
    lower: "those (map (\<lambda>child. getDescendantTasks m (t_id child) ts) ?children) = Some lower"
    and ds: "ds = ?children @ concat lower"
    using getDescendantTasks_Suc_Some by blast
  from below.hyps have cc: "c \<in> set ?children" by simp
  from those_map_elem[OF lower cc]
  obtain r where r: "getDescendantTasks m (t_id c) ts = Some r" "r \<in> set lower" by blast
  from r(1) have "t \<in> set r" by (rule below.IH)
  with r(2) ds show ?case by auto
qed

lemma getDescendantTasks_set:
  "getDescendantTasks n a ts = Some ds \<Longrightarrow> set ds = {t. descendant ts a t}"
  using getDescendantTasks_sound getDescendantTasks_complete by blast

text \<open>A task that is its own parent exhausts every stack: the traversal never returns.\<close>

lemma those_None: "None \<in> set xs \<Longrightarrow> those xs = None"
  by (induction xs) (auto split: option.splits)

lemma getDescendantTasks_self_parent:
  assumes "t \<in> set ts" and "t_parentId t = Some (t_id t)"
  shows "getDescendantTasks n (t_id t) ts = None"
proof (induction n)
  case 0
  show ?case by (simp add: getDescendantTasks.simps(1))
next
  case (Suc n)
  from assms have "t \<in> set (filter (\<lambda>c. t_parentId c = Some (t_id t)) ts)" by simp
  then have "getDescendantTasks n (t_id t) ts
      \<in> set (map (\<lambda>child. getDescendantTasks n (t_id child) ts) (filter (\<lambda>c. t_parentId c = Some (t_id t)) ts))"
    unfolding set_map by (rule rev_image_eqI) (rule refl)
  with Suc.IH have "None \<in> set (map (\<lambda>child. getDescendantTasks n (t_id child) ts)
      (filter (\<lambda>c. t_parentId c = Some (t_id t)) ts))" by simp
  then have "those (map (\<lambda>child. getDescendantTasks n (t_id child) ts)
      (filter (\<lambda>c. t_parentId c = Some (t_id t)) ts)) = None" by (rule those_None)
  then show ?case by (simp only: getDescendantTasks.simps Let_def option.map)
qed

subsection \<open>The sort\<close>

lemma mset_insertBy: "mset (insertBy cmp x xs) = add_mset x (mset xs)"
  by (induction xs) auto

lemma mset_sortJs: "mset (sortJs cmp xs) = mset xs"
  by (induction xs) (auto simp: sortJs_def mset_insertBy)

lemma set_sortJs: "set (sortJs cmp xs) = set xs"
  using mset_sortJs[of cmp xs] by (metis set_mset_mset)

text \<open>Where no key is NaN the comparator is consistent and the model is the stable sort.\<close>

lemma insertBy_insort:
  assumes "f x \<noteq> NaN" and "\<forall>y \<in> set ys. f y \<noteq> NaN"
  shows "insertBy (\<lambda>a b. jsSub (f a) (f b)) x ys = insort_key (\<lambda>a. theNumber (f a)) x ys"
  using assms
proof (induction ys)
  case Nil
  then show ?case by simp
next
  case (Cons y ys)
  from Cons.prems obtain a b where "f x = Number a" "f y = Number b"
    by (cases "f x"; cases "f y") auto
  with Cons show ?case by auto
qed

lemma sortJs_sort_key:
  assumes "\<forall>y \<in> set xs. f y \<noteq> NaN"
  shows "sortJs (\<lambda>a b. jsSub (f a) (f b)) xs = sort_key (\<lambda>a. theNumber (f a)) xs"
  using assms
proof (induction xs)
  case Nil
  then show ?case by (simp add: sortJs_def)
next
  case (Cons x xs)
  then have ih: "sortJs (\<lambda>a b. jsSub (f a) (f b)) xs = sort_key (\<lambda>a. theNumber (f a)) xs" by simp
  have "sortJs (\<lambda>a b. jsSub (f a) (f b)) (x # xs)
      = insertBy (\<lambda>a b. jsSub (f a) (f b)) x (sortJs (\<lambda>a b. jsSub (f a) (f b)) xs)"
    by (simp add: sortJs_def)
  also have "\<dots> = insertBy (\<lambda>a b. jsSub (f a) (f b)) x (sort_key (\<lambda>a. theNumber (f a)) xs)"
    by (simp only: ih)
  also have "\<dots> = insort_key (\<lambda>a. theNumber (f a)) x (sort_key (\<lambda>a. theNumber (f a)) xs)"
    using Cons.prems by (intro insertBy_insort) auto
  finally show ?case by simp
qed

lemma sorted_wrt_jsLe:
  assumes "\<forall>y \<in> set xs. f y \<noteq> NaN" and "sorted (map (\<lambda>a. theNumber (f a)) xs)"
  shows "sorted_wrt (\<lambda>a b. jsLe (f a) (f b)) xs"
  using assms
proof (induction xs)
  case Nil
  then show ?case by simp
next
  case (Cons x xs)
  have "jsLe (f x) (f y)" if "y \<in> set xs" for y
  proof -
    from Cons.prems(1) that obtain a b where ab: "f x = Number a" "f y = Number b"
      by (cases "f x"; cases "f y") auto
    from Cons.prems(2) that have "theNumber (f x) \<le> theNumber (f y)" by auto
    with ab show ?thesis by simp
  qed
  with Cons show ?case by auto
qed

lemma inboxTasks_sort_key:
  assumes "list_all (\<lambda>t. t_order t \<noteq> NaN) (filter (\<lambda>t. t_state t = Inbox) ts)"
  shows "inboxTasks ts = sort_key (\<lambda>a. theNumber (t_order a)) (filter (\<lambda>t. t_state t = Inbox) ts)"
proof -
  from assms have "\<forall>y \<in> set (filter (\<lambda>t. t_state t = Inbox) ts). t_order y \<noteq> NaN"
    by (simp add: list_all_iff)
  from sortJs_sort_key[of "filter (\<lambda>t. t_state t = Inbox) ts" t_order, OF this]
  show ?thesis by (simp add: inboxTasks_def byOrder_def[abs_def])
qed

lemma number_key:
  assumes "t_order t \<noteq> NaN"
  shows "(t_order t = Number v) = (theNumber (t_order t) = v)"
  using assms by (cases "t_order t") auto

subsection \<open>The branches of the task update\<close>

lemma updateTask_done_declined:
  assumes "patch_state patch = Some Done"
    and "getDescendantTasks stack i (tasks st) = Some ds"
    and "filter (\<lambda>t. t_state t \<noteq> Done) ds \<noteq> []"
    and "\<not> confirmed"
  shows "updateTask stack confirmed remote now i patch st =
    \<lparr> final = st, trace = [Prompt (length (filter (\<lambda>t. t_state t \<noteq> Done) ds))], raised = None \<rparr>"
  using assms by (simp add: updateTask_def Let_def)

lemma updateTask_done_applied:
  assumes "patch_state patch = Some Done"
    and "getDescendantTasks stack i (tasks st) = Some ds"
    and "confirmed \<or> filter (\<lambda>t. t_state t \<noteq> Done) ds = []"
  shows "updateTask stack confirmed remote now i patch st =
    \<lparr> final = st\<lparr> tasks := map (\<lambda>task. if t_id task = i \<or> t_id task \<in> t_id ` set ds
                                       then markDone now task else task) (tasks st) \<rparr>,
      trace = (if filter (\<lambda>t. t_state t \<noteq> Done) ds = [] then []
               else [Prompt (length (filter (\<lambda>t. t_state t \<noteq> Done) ds))])
              @ SetTasks # map Dispatch (map UpdateTaskDone (i # map t_id ds)),
      raised = settled remote (map UpdateTaskDone (i # map t_id ds)) \<rparr>"
proof -
  have m: "(\<lambda>task. if t_id task \<notin> set (i # map t_id ds) then task else markDone now task)
       = (\<lambda>task. if t_id task = i \<or> t_id task \<in> t_id ` set ds then markDone now task else task)"
    by (rule ext) auto
  show ?thesis
    using assms unfolding updateTask_def Let_def m by auto
qed

lemma updateTask_overflow:
  assumes "patch_state patch = Some Done"
    and "getDescendantTasks stack i (tasks st) = None"
  shows "updateTask stack confirmed remote now i patch st =
    \<lparr> final = st, trace = [], raised = Some RangeError \<rparr>"
  using assms by (simp add: updateTask_def)

lemma updateTask_other:
  assumes "patch_state patch \<noteq> Some Done"
  shows "updateTask stack confirmed remote now i patch st =
    \<lparr> final = st\<lparr> tasks :=
         map (\<lambda>task. if t_id task \<noteq> i then task
                     else (spreadPatch task patch)
                            \<lparr> t_doneAt := (if patch_state patch \<noteq> None \<and> t_state task = Done
                                            then None else t_doneAt task),
                              t_updatedAt := now \<rparr>) (tasks st) \<rparr>,
      trace = [SetTasks, Dispatch (UpdateTask i patch (patch_state patch \<noteq> None \<and>
                     (case find (\<lambda>t. t_id t = i) (tasks st) of None \<Rightarrow> False | Some cur \<Rightarrow> t_state cur = Done)))],
      raised = settled remote [UpdateTask i patch (patch_state patch \<noteq> None \<and>
                     (case find (\<lambda>t. t_id t = i) (tasks st) of None \<Rightarrow> False | Some cur \<Rightarrow> t_state cur = Done))] \<rparr>"
  using assms by (simp add: updateTask_def Let_def)

subsection \<open>Trimming\<close>

lemma trim_Nil_iff: "trim s = [] \<longleftrightarrow> list_all isWhiteSpace s"
proof
  assume "trim s = []"
  then have a: "dropWhile isWhiteSpace (rev (dropWhile isWhiteSpace s)) = []"
    by (simp add: trim_def)
  show "list_all isWhiteSpace s"
  proof (cases "dropWhile isWhiteSpace s = []")
    case True
    then show ?thesis by (simp add: dropWhile_eq_Nil_conv list_all_iff)
  next
    case False
    then have "\<not> isWhiteSpace (hd (dropWhile isWhiteSpace s))" by (rule hd_dropWhile)
    moreover have "hd (dropWhile isWhiteSpace s) \<in> set (dropWhile isWhiteSpace s)"
      using False by simp
    moreover from a have "\<forall>x \<in> set (dropWhile isWhiteSpace s). isWhiteSpace x"
      by (simp add: dropWhile_eq_Nil_conv)
    ultimately show ?thesis by blast
  qed
next
  assume "list_all isWhiteSpace s"
  then show "trim s = []"
    by (auto simp: trim_def list_all_iff dest: set_dropWhileD)
qed

subsection \<open>The mapper returns unless a conversion raises\<close>

lemma toIsoString_converts: "\<not> toDateIsData v \<Longrightarrow> \<exists>r. toIsoString v = Inr r"
  by (cases v rule: toDateIsData.cases) (auto split: list.splits)

lemma toIsoString_raises: "toDateIsData v \<Longrightarrow> toIsoString v = Inl TypeError"
  by (cases v rule: toDateIsData.cases) auto

lemma mapTaskDoc_returns:
  assumes "taskStampsConvert d"
  shows "\<exists>created updated due scheduled doneAt.
     mapTaskDoc now i d = Inr \<lparr> t_id = i,
              t_text = nullish (d ''text'') (JStr ''''),
              t_projectId = nullish (d ''projectId'') JNull,
              t_parentId = nullish (d ''parentId'') JNull,
              t_state = nullish (d ''state'') (JStr ''inbox''),
              t_createdAt = orNow now created,
              t_updatedAt = orNow now updated,
              t_dueAt = due,
              t_scheduledAt = scheduled,
              t_doneAt = doneAt,
              t_order = numberOr0 (d ''order'') \<rparr>"
proof -
  from assms have ok: "\<not> toDateIsData (d ''createdAt'')" "\<not> toDateIsData (d ''updatedAt'')"
    "\<not> toDateIsData (d ''dueAt'')" "\<not> toDateIsData (d ''scheduledAt'')"
    "\<not> toDateIsData (d ''doneAt'')"
    by (simp_all add: taskStampsConvert_def)
  from ok(1) obtain c where c: "toIsoString (d ''createdAt'') = Inr c"
    using toIsoString_converts by blast
  from ok(2) obtain u where u: "toIsoString (d ''updatedAt'') = Inr u"
    using toIsoString_converts by blast
  from ok(3) obtain du where du: "toIsoString (d ''dueAt'') = Inr du"
    using toIsoString_converts by blast
  from ok(4) obtain s where s: "toIsoString (d ''scheduledAt'') = Inr s"
    using toIsoString_converts by blast
  from ok(5) obtain dn where dn: "toIsoString (d ''doneAt'') = Inr dn"
    using toIsoString_converts by blast
  show ?thesis
    unfolding mapTaskDoc_def c u du s dn by auto
qed

lemma mapProjectDoc_returns:
  assumes "\<not> toDateIsData (d ''createdAt'')"
  shows "\<exists>created.
     mapProjectDoc now i d = Inr \<lparr> p_id = i,
              p_name = nullish (d ''name'') (JStr ''Untitled''),
              p_state = nullish (d ''state'') (JStr ''active''),
              p_order = numberOr0 (d ''order''),
              p_createdAt = orNow now created \<rparr>"
proof -
  from assms obtain c where c: "toIsoString (d ''createdAt'') = Inr c"
    using toIsoString_converts by blast
  show ?thesis
    unfolding mapProjectDoc_def c by auto
qed

lemma mapTaskDoc_Inr_fields:
  assumes "mapTaskDoc now i d = Inr t"
  shows "t_state t = nullish (d ''state'') (JStr ''inbox'') \<and> t_order t = numberOr0 (d ''order'')"
  using assms by (auto simp: mapTaskDoc_def simp del: toIsoString.simps split: sum.splits)

lemma nullish_present: "v \<noteq> JNull \<Longrightarrow> nullish (Some v) dflt = v"
  by (cases v) auto

lemma numberOr0_not_number: "(\<And>n. v \<noteq> Some (JNum n)) \<Longrightarrow> numberOr0 v = Number 0"
  by (cases v rule: numberOr0.cases) auto

lemma mapTaskDoc_raises:
  assumes "\<not> taskStampsConvert d"
  shows "mapTaskDoc now i d = Inl TypeError"
proof -
  have step: "(case toIsoString v of Inl e \<Rightarrow> Inl e | Inr r \<Rightarrow> k r) = Inl TypeError"
    if "toDateIsData v \<or> (\<forall>r. k r = Inl TypeError)" for v and k :: "string option \<Rightarrow> error + MappedTask"
  proof (cases "toDateIsData v")
    case True
    then show ?thesis by (simp only: toIsoString_raises sum.case)
  next
    case False
    with that have k: "\<forall>r. k r = Inl TypeError" by simp
    from False obtain r where "toIsoString v = Inr r" using toIsoString_converts by blast
    with k show ?thesis by (simp only: sum.case)
  qed
  from assms have bad: "toDateIsData (d ''createdAt'') \<or> toDateIsData (d ''updatedAt'')
      \<or> toDateIsData (d ''dueAt'') \<or> toDateIsData (d ''scheduledAt'') \<or> toDateIsData (d ''doneAt'')"
    by (simp add: taskStampsConvert_def)
  show ?thesis
    unfolding mapTaskDoc_def
    apply (rule step)
    apply (cases "toDateIsData (d ''createdAt'')", simp, rule disjI2, rule allI)
    apply (rule step)
    apply (cases "toDateIsData (d ''updatedAt'')", simp, rule disjI2, rule allI)
    apply (rule step)
    apply (cases "toDateIsData (d ''dueAt'')", simp, rule disjI2, rule allI)
    apply (rule step)
    apply (cases "toDateIsData (d ''scheduledAt'')", simp, rule disjI2, rule allI)
    apply (rule step)
    using bad apply simp
    done
qed

lemma mapProjectDoc_raises:
  assumes "toDateIsData (d ''createdAt'')"
  shows "mapProjectDoc now i d = Inl TypeError"
  unfolding mapProjectDoc_def by (simp only: toIsoString_raises[OF assms] sum.case)

subsection \<open>The cascades and the traces of the handlers\<close>

lemma traversal_returns_descendants:
  assumes "ranked rank ts" and "rank i < stack"
  obtains ds where "getDescendantTasks stack i ts = Some ds" and "set ds = {t. descendant ts i t}"
  using assms getDescendantTasks_returns getDescendantTasks_set by blast

lemma in_cascade_iff:
  assumes "set ds = {t. descendant ts i t}"
  shows "(t_id t = i \<or> t_id t \<in> t_id ` set ds) \<longleftrightarrow>
         (t_id t = i \<or> (\<exists>d. descendant ts i d \<and> t_id d = t_id t))"
  unfolding assms image_iff by (simp add: Bex_def) metis

lemma cascade_tasks:
  assumes "ranked rank (tasks st)" and "rank i < stack" and "patch_state patch = Some Done"
    and "confirmed \<or> (\<forall>d. descendant (tasks st) i d \<longrightarrow> t_state d = Done)"
  shows "tasks (final (updateTask stack confirmed remote now i patch st))
       = map (\<lambda>t. if t_id t = i \<or> (\<exists>d. descendant (tasks st) i d \<and> t_id d = t_id t)
                  then markDone now t else t) (tasks st)"
proof -
  from assms(1,2) obtain ds where ds: "getDescendantTasks stack i (tasks st) = Some ds"
    and set: "set ds = {t. descendant (tasks st) i t}"
    by (rule traversal_returns_descendants)
  from assms(4) set have "confirmed \<or> filter (\<lambda>t. t_state t \<noteq> Done) ds = []"
    by (auto simp: filter_empty_conv)
  from updateTask_done_applied[OF assms(3) ds this]
  have "tasks (final (updateTask stack confirmed remote now i patch st))
       = map (\<lambda>task. if t_id task = i \<or> t_id task \<in> t_id ` set ds
                      then markDone now task else task) (tasks st)"
    by simp
  also have "\<dots> = map (\<lambda>t. if t_id t = i \<or> (\<exists>d. descendant (tasks st) i d \<and> t_id d = t_id t)
                  then markDone now t else t) (tasks st)"
    by (simp only: in_cascade_iff[OF set])
  finally show ?thesis .
qed

lemma cascade_declined:
  assumes "ranked rank (tasks st)" and "rank i < stack" and "patch_state patch = Some Done"
    and "descendant (tasks st) i d" and "t_state d \<noteq> Done"
  shows "\<exists>n. 0 < n \<and> updateTask stack False remote now i patch st
       = \<lparr> final = st, trace = [Prompt n], raised = None \<rparr>"
proof -
  from assms(1,2) obtain ds where ds: "getDescendantTasks stack i (tasks st) = Some ds"
    and set: "set ds = {t. descendant (tasks st) i t}"
    by (rule traversal_returns_descendants)
  from assms(4,5) set have ne: "filter (\<lambda>t. t_state t \<noteq> Done) ds \<noteq> []"
    by (auto simp: filter_empty_conv)
  from updateTask_done_declined[OF assms(3) ds ne] ne show ?thesis by auto
qed

text \<open>The same branches, told by what the traversal returned instead of by a ranking.\<close>

lemma cascade_tasks_returned:
  assumes "patch_state patch = Some Done"
    and "getDescendantTasks stack i (tasks st) = Some ds"
    and "confirmed \<or> (\<forall>d. descendant (tasks st) i d \<longrightarrow> t_state d = Done)"
  shows "tasks (final (updateTask stack confirmed remote now i patch st))
       = map (\<lambda>t. if t_id t = i \<or> (\<exists>d. descendant (tasks st) i d \<and> t_id d = t_id t)
                  then markDone now t else t) (tasks st)"
proof -
  from assms(2) have set: "set ds = {t. descendant (tasks st) i t}"
    by (rule getDescendantTasks_set)
  from assms(3) set have "confirmed \<or> filter (\<lambda>t. t_state t \<noteq> Done) ds = []"
    by (auto simp: filter_empty_conv)
  from updateTask_done_applied[OF assms(1,2) this]
  have "tasks (final (updateTask stack confirmed remote now i patch st))
       = map (\<lambda>task. if t_id task = i \<or> t_id task \<in> t_id ` set ds
                      then markDone now task else task) (tasks st)"
    by simp
  also have "\<dots> = map (\<lambda>t. if t_id t = i \<or> (\<exists>d. descendant (tasks st) i d \<and> t_id d = t_id t)
                  then markDone now t else t) (tasks st)"
    by (simp only: in_cascade_iff[OF set])
  finally show ?thesis .
qed

lemma cascade_declined_returned:
  assumes "patch_state patch = Some Done"
    and "getDescendantTasks stack i (tasks st) = Some ds"
    and "descendant (tasks st) i d" and "t_state d \<noteq> Done"
  shows "\<exists>n. 0 < n \<and> updateTask stack False remote now i patch st
       = \<lparr> final = st, trace = [Prompt n], raised = None \<rparr>"
proof -
  from assms(2) have set: "set ds = {t. descendant (tasks st) i t}"
    by (rule getDescendantTasks_set)
  from assms(3,4) set have ne: "filter (\<lambda>t. t_state t \<noteq> Done) ds \<noteq> []"
    by (auto simp: filter_empty_conv)
  from updateTask_done_declined[OF assms(1,2) ne] ne show ?thesis by auto
qed

text \<open>A prompt in the trace of a declined run means that nothing else happened.\<close>

lemma prompt_shown_declined:
  assumes "Prompt n \<in> set (trace (updateTask stack False remote now i patch st))"
  shows "updateTask stack False remote now i patch st
       = \<lparr> final = st, trace = [Prompt n], raised = None \<rparr>"
proof (cases "patch_state patch = Some Done")
  case False
  from updateTask_other[OF False, of stack False remote now i st] assms show ?thesis by simp
next
  case True
  show ?thesis
  proof (cases "getDescendantTasks stack i (tasks st)")
    case None
    from updateTask_overflow[OF True None, of False remote now] assms show ?thesis by simp
  next
    case (Some ds)
    show ?thesis
    proof (cases "filter (\<lambda>t. t_state t \<noteq> Done) ds = []")
      case True
      then have "False \<or> filter (\<lambda>t. t_state t \<noteq> Done) ds = []" by simp
      from updateTask_done_applied[OF \<open>patch_state patch = Some Done\<close> Some this, of remote now]
        assms True
      show ?thesis by auto
    next
      case False
      from updateTask_done_declined[OF \<open>patch_state patch = Some Done\<close> Some False,
             where confirmed = False and remote = remote and now = now]
        assms
      show ?thesis by simp
    qed
  qed
qed

text \<open>
  With a descendant that is not done and a refusal, nothing changes, whether the
  traversal returns (the prompt is shown) or exhausts the stack (a RangeError).
\<close>

lemma declined_or_overflow_unchanged:
  assumes "patch_state patch = Some Done"
    and "descendant (tasks st) i d" and "t_state d \<noteq> Done"
  shows "final (updateTask stack False remote now i patch st) = st
       \<and> filter isDispatch (trace (updateTask stack False remote now i patch st)) = []"
proof (cases "getDescendantTasks stack i (tasks st)")
  case None
  from updateTask_overflow[OF assms(1) None, of False remote now] show ?thesis by simp
next
  case (Some ds)
  from cascade_declined_returned[OF assms(1) Some assms(2,3), of remote now]
  show ?thesis by auto
qed

text \<open>Whatever the patch and the answer, a task enters or leaves done with the right time.\<close>

lemma updateTask_into_done:
  "list_all2 (\<lambda>t t'. t_state t \<noteq> Done \<and> t_state t' = Done \<longrightarrow> t_doneAt t' = Some now)
     (tasks st) (tasks (final (updateTask stack confirmed remote now i patch st)))"
proof (cases "patch_state patch = Some Done")
  case False
  from updateTask_other[OF False, of stack confirmed remote now i st] False
  show ?thesis
    by (cases "patch_state patch")
       (auto simp: list_all2_map2 list_all2_same spreadPatch_def override_def)
next
  case True
  show ?thesis
  proof (cases "getDescendantTasks stack i (tasks st)")
    case None
    from updateTask_overflow[OF True None, of confirmed remote now]
    show ?thesis by (simp add: list_all2_same)
  next
    case (Some ds)
    show ?thesis
    proof (cases "confirmed \<or> filter (\<lambda>t. t_state t \<noteq> Done) ds = []")
      case True
      from updateTask_done_applied[OF \<open>patch_state patch = Some Done\<close> Some True, of remote now]
      show ?thesis by (simp add: list_all2_map2 list_all2_same markDone_def)
    next
      case False
      then have "filter (\<lambda>t. t_state t \<noteq> Done) ds \<noteq> []" "\<not> confirmed" by simp_all
      from updateTask_done_declined[OF \<open>patch_state patch = Some Done\<close> Some this, of remote now]
      show ?thesis by (simp add: list_all2_same)
    qed
  qed
qed

lemma updateTask_out_of_done:
  "list_all2 (\<lambda>t t'. t_state t = Done \<and> t_state t' \<noteq> Done \<longrightarrow> t_doneAt t' = None)
     (tasks st) (tasks (final (updateTask stack confirmed remote now i patch st)))"
proof (cases "patch_state patch = Some Done")
  case False
  from updateTask_other[OF False, of stack confirmed remote now i st] False
  show ?thesis
    by (cases "patch_state patch")
       (auto simp: list_all2_map2 list_all2_same spreadPatch_def override_def)
next
  case True
  show ?thesis
  proof (cases "getDescendantTasks stack i (tasks st)")
    case None
    from updateTask_overflow[OF True None, of confirmed remote now]
    show ?thesis by (simp add: list_all2_same)
  next
    case (Some ds)
    show ?thesis
    proof (cases "confirmed \<or> filter (\<lambda>t. t_state t \<noteq> Done) ds = []")
      case True
      from updateTask_done_applied[OF \<open>patch_state patch = Some Done\<close> Some True, of remote now]
      show ?thesis by (simp add: list_all2_map2 list_all2_same markDone_def)
    next
      case False
      then have "filter (\<lambda>t. t_state t \<noteq> Done) ds \<noteq> []" "\<not> confirmed" by simp_all
      from updateTask_done_declined[OF \<open>patch_state patch = Some Done\<close> Some this, of remote now]
      show ?thesis by (simp add: list_all2_same)
    qed
  qed
qed

text \<open>The example with the cycle: no ranking exists, and the traversal from \<open>t-3\<close> returns.\<close>

lemma elsewhere_not_ranked: "\<not> ranked rank elsewhereTasks"
  by (simp add: ranked_def elsewhereTasks_def familyTasks_def exampleTask_def)

lemma elsewhere_traversal:
  "getDescendantTasks 2 ''t-3'' elsewhereTasks =
     Some [exampleTask ''t-4'' (Some ''p-work'') (Some ''t-3'') Active None 10,
           exampleTask ''t-5'' (Some ''p-work'') (Some ''t-3'') Done (Some ''day-2'') 20]"
  by (simp add: numeral_2_eq_2 getDescendantTasks.simps elsewhereTasks_def familyTasks_def
      exampleTask_def Let_def)

lemma elsewhere_t4:
  "descendant elsewhereTasks ''t-3'' (exampleTask ''t-4'' (Some ''p-work'') (Some ''t-3'') Active None 10)"
  by (rule descendant.child) (simp_all add: elsewhereTasks_def familyTasks_def exampleTask_def)

lemma elsewhere_t5:
  "descendant elsewhereTasks ''t-3'' (exampleTask ''t-5'' (Some ''p-work'') (Some ''t-3'') Done (Some ''day-2'') 20)"
  by (rule descendant.child) (simp_all add: elsewhereTasks_def familyTasks_def exampleTask_def)

lemma family_tasks: "tasks (exampleState ts q) = ts"
  by (simp add: exampleState_def)

lemma family_ranked: "ranked familyRank familyTasks"
  by (simp add: ranked_def familyTasks_def exampleTask_def familyRank_def)

lemma family_t4:
  "descendant familyTasks ''t-3'' (exampleTask ''t-4'' (Some ''p-work'') (Some ''t-3'') Active None 10)"
  by (rule descendant.child) (simp_all add: familyTasks_def exampleTask_def)

lemma family_t5:
  "descendant familyTasks ''t-3'' (exampleTask ''t-5'' (Some ''p-work'') (Some ''t-3'') Done (Some ''day-2'') 20)"
  by (rule descendant.child) (simp_all add: familyTasks_def exampleTask_def)

lemma statePatch_state: "patch_state (statePatch s) = Some s"
  by (simp add: statePatch_def)

lemma project_branch:
  assumes "t \<in> set (tasks st)" and "t_projectId t = Some sel" and "t_state t \<noteq> Done"
  shows "0 < length (filter (\<lambda>t. t_state t \<noteq> Done) (filter (\<lambda>t. t_projectId t = Some sel) (tasks st)))"
proof -
  from assms have "t \<in> set (filter (\<lambda>t. t_state t \<noteq> Done) (filter (\<lambda>t. t_projectId t = Some sel) (tasks st)))"
    by simp
  then show ?thesis by (rule length_pos_if_in_set)
qed

lemma project_declined:
  assumes "t \<in> set (tasks st)" and "t_projectId t = Some sel" and "t_state t \<noteq> Done"
  shows "\<exists>n. 0 < n \<and> projectStatusOnChange False remote now sel ProjectDone st
       = \<lparr> final = st, trace = [Prompt n], raised = None \<rparr>"
proof -
  let ?n = "length (filter (\<lambda>t. t_state t \<noteq> Done) (filter (\<lambda>t. t_projectId t = Some sel) (tasks st)))"
  from assms have pos: "0 < ?n" by (rule project_branch)
  have "projectStatusOnChange False remote now sel ProjectDone st
       = \<lparr> final = st, trace = [Prompt ?n], raised = None \<rparr>"
    unfolding projectStatusOnChange_def Let_def
    by (simp only: pos simp_thms if_True if_False)
  with pos show ?thesis by blast
qed

lemma project_cascade_tasks:
  assumes "t \<in> set (tasks st)" and "t_projectId t = Some sel" and "t_state t \<noteq> Done"
  shows "tasks (final (projectStatusOnChange True remote now sel ProjectDone st))
       = map (\<lambda>task. if t_projectId task \<noteq> Some sel \<or> t_state task = Done
                      then task else markDone now task) (tasks st)"
proof -
  let ?n = "length (filter (\<lambda>t. t_state t \<noteq> Done) (filter (\<lambda>t. t_projectId t = Some sel) (tasks st)))"
  from assms have pos: "0 < ?n" by (rule project_branch)
  show ?thesis
    unfolding projectStatusOnChange_def Let_def
    apply (simp only: pos simp_thms if_True if_False)
    apply (simp add: finishProject_def Let_def del: filter_filter length_greater_0_conv)
    done
qed

lemma project_cascade_trace:
  assumes "t \<in> set (tasks st)" and "t_projectId t = Some sel" and "t_state t \<noteq> Done"
  shows "\<exists>n rest. 0 < n \<and> trace (projectStatusOnChange True remote now sel ProjectDone st)
            = Prompt n # SetTasks # rest"
proof -
  let ?n = "length (filter (\<lambda>t. t_state t \<noteq> Done) (filter (\<lambda>t. t_projectId t = Some sel) (tasks st)))"
  from assms have pos: "0 < ?n" by (rule project_branch)
  have "\<exists>rest. trace (projectStatusOnChange True remote now sel ProjectDone st)
            = Prompt ?n # SetTasks # rest"
    unfolding projectStatusOnChange_def Let_def
    apply (simp only: pos simp_thms if_True if_False)
    apply (simp add: finishProject_def Let_def del: filter_filter length_greater_0_conv)
    done
  with pos show ?thesis by blast
qed

lemma updateTask_localFirst: "localFirst (trace (updateTask stack confirmed remote now i patch st))"
proof (cases "patch_state patch = Some Done")
  case False
  then show ?thesis by (simp add: updateTask_other localFirst_def)
next
  case True
  show ?thesis
  proof (cases "getDescendantTasks stack i (tasks st)")
    case None
    with True show ?thesis by (simp add: updateTask_overflow localFirst_def)
  next
    case (Some ds)
    show ?thesis
    proof (cases "confirmed \<or> filter (\<lambda>t. t_state t \<noteq> Done) ds = []")
      case True
      from updateTask_done_applied[OF \<open>patch_state patch = Some Done\<close> Some True]
      show ?thesis by (simp add: localFirst_def)
    next
      case False
      then have "filter (\<lambda>t. t_state t \<noteq> Done) ds \<noteq> []" "\<not> confirmed" by simp_all
      from updateTask_done_declined[OF \<open>patch_state patch = Some Done\<close> Some this]
      show ?thesis by (simp add: localFirst_def)
    qed
  qed
qed

lemma updateTask_trace_remote:
  "trace (updateTask stack confirmed remote' now i patch st)
     = trace (updateTask stack confirmed remote now i patch st)"
  by (simp add: updateTask_def Let_def split: option.splits)

lemma finishProject_trace:
  "trace (finishProject remote sel newState ps st sofar) = sofar @ [Dispatch (UpdateProject sel newState)]
   \<or> trace (finishProject remote sel newState ps st sofar)
       = sofar @ [Dispatch (UpdateProject sel newState), SetProjects]"
  by (simp add: finishProject_def Let_def)

lemma cascade_prefix_ok:
  "localFirst (Prompt n # SetTasks # map Dispatch (map (\<lambda>task. UpdateTaskDone (t_id task)) ts))
   \<and> SetProjects \<notin> set (Prompt n # SetTasks # map Dispatch (map (\<lambda>task. UpdateTaskDone (t_id task)) ts))
   \<and> Dispatch (UpdateProject sel newState)
        \<notin> set (Prompt n # SetTasks # map Dispatch (map (\<lambda>task. UpdateTaskDone (t_id task)) ts))"
  by (auto simp: localFirst_def)

lemma trace_shapeI:
  assumes "tr = pre @ post" and "localFirst pre \<and> SetProjects \<notin> set pre \<and> w \<notin> set pre"
    and "post = [] \<or> post = [w] \<or> post = [w, SetProjects]"
  shows "\<exists>pre post. tr = pre @ post \<and> localFirst pre \<and> SetProjects \<notin> set pre \<and> w \<notin> set pre
      \<and> (post = [] \<or> post = [w] \<or> post = [w, SetProjects])"
  using assms by blast

lemma empty_prefix_ok: "localFirst [] \<and> SetProjects \<notin> set [] \<and> w \<notin> set []"
  by (simp add: localFirst_def)

lemma prompt_prefix_ok:
  "localFirst [Prompt n] \<and> SetProjects \<notin> set [Prompt n] \<and> Dispatch w \<notin> set [Prompt n]"
  by (simp add: localFirst_def)

lemma project_trace_shape:
  "\<exists>pre post. trace (projectStatusOnChange confirmed remote now sel newState st) = pre @ post
      \<and> localFirst pre \<and> SetProjects \<notin> set pre \<and> Dispatch (UpdateProject sel newState) \<notin> set pre
      \<and> (post = [] \<or> post = [Dispatch (UpdateProject sel newState)]
          \<or> post = [Dispatch (UpdateProject sel newState), SetProjects])"
proof -
  let ?inc = "filter (\<lambda>t. t_state t \<noteq> Done) (filter (\<lambda>t. t_projectId t = Some sel) (tasks st))"
  let ?writes = "map (\<lambda>task. UpdateTaskDone (t_id task)) ?inc"
  let ?sofar = "Prompt (length ?inc) # SetTasks # map Dispatch ?writes"
  let ?st1 = "st\<lparr> tasks := map (\<lambda>task. if t_projectId task \<noteq> Some sel \<or> t_state task = Done
                                          then task else markDone now task) (tasks st) \<rparr>"
  let ?tr = "trace (projectStatusOnChange confirmed remote now sel newState st)"
  let ?w = "Dispatch (UpdateProject sel newState)"
  note sofar_ok = cascade_prefix_ok[of "length ?inc" ?inc sel newState]
  consider (plain) "\<not> (newState = ProjectDone \<and> 0 < length ?inc)"
    | (declined) "newState = ProjectDone \<and> 0 < length ?inc" "\<not> confirmed"
    | (failed) "newState = ProjectDone \<and> 0 < length ?inc" "confirmed" "\<not> list_all (updateDoc remote) ?writes"
    | (cascaded) "newState = ProjectDone \<and> 0 < length ?inc" "confirmed" "list_all (updateDoc remote) ?writes"
    by blast
  then show ?thesis
  proof cases
    case plain
    then have "?tr = trace (finishProject remote sel newState (projects st) st [])"
      unfolding projectStatusOnChange_def Let_def by (simp only: if_False)
    with finishProject_trace[of remote sel newState "projects st" st "[]"]
    have "?tr = [] @ [?w] \<or> ?tr = [] @ [?w, SetProjects]" by simp
    then show ?thesis
    proof
      assume "?tr = [] @ [?w]"
      then show ?thesis by (rule trace_shapeI[OF _ empty_prefix_ok]) simp
    next
      assume "?tr = [] @ [?w, SetProjects]"
      then show ?thesis by (rule trace_shapeI[OF _ empty_prefix_ok]) simp
    qed
  next
    case declined
    then have "?tr = [Prompt (length ?inc)]"
      unfolding projectStatusOnChange_def Let_def
      by (simp only: if_True simp_thms Outcome.simps)
    then have "?tr = [Prompt (length ?inc)] @ []" by simp
    then show ?thesis
      by (rule trace_shapeI[OF _ prompt_prefix_ok]) simp
  next
    case failed
    then have "?tr = ?sofar"
      unfolding projectStatusOnChange_def Let_def
      by (simp only: if_True if_False simp_thms Outcome.simps)
    then have "?tr = ?sofar @ []" by simp
    then show ?thesis by (rule trace_shapeI[OF _ sofar_ok]) simp
  next
    case cascaded
    then have "?tr = trace (finishProject remote sel newState (projects st) ?st1 ?sofar)"
      unfolding projectStatusOnChange_def Let_def
      by (simp only: if_True if_False simp_thms)
    with finishProject_trace[of remote sel newState "projects st" ?st1 ?sofar]
    have "?tr = ?sofar @ [?w] \<or> ?tr = ?sofar @ [?w, SetProjects]" by simp
    then show ?thesis
    proof
      assume "?tr = ?sofar @ [?w]"
      then show ?thesis by (rule trace_shapeI[OF _ sofar_ok]) simp
    next
      assume "?tr = ?sofar @ [?w, SetProjects]"
      then show ?thesis by (rule trace_shapeI[OF _ sofar_ok]) simp
    qed
  qed
qed

lemma addQuickTask_order:
  assumes "trim (quickText st) \<noteq> []"
  shows "case addDoc remote (AddTask (trim (quickText st)) ''p-default'' (nextOrder (tasks st))) of
           None \<Rightarrow> addQuickTask remote now st
                    = \<lparr> final = st,
                        trace = [Dispatch (AddTask (trim (quickText st)) ''p-default'' (nextOrder (tasks st)))],
                        raised = Some RemoteRejected \<rparr>
         | Some docId \<Rightarrow> trace (addQuickTask remote now st)
                    = [Dispatch (AddTask (trim (quickText st)) ''p-default'' (nextOrder (tasks st))),
                       SetTasks, SetQuickText, SetView]"
  using assms by (simp add: addQuickTask_def Let_def split: option.splits)

section \<open>The claims\<close>

subsection \<open>C7: the Inbox view\<close>

text \<open>
  As stated, C7 has the Inbox view sorted for every task collection. An order may be
  NaN: the mapper keeps it, since \<open>typeof NaN\<close> is \<open>number\<close>. Then each difference with it
  is NaN, the sort reads that as equal, and three inbox tasks with the orders 3, NaN, 1
  stay as they are, 3 before 1.
\<close>

theorem C7_counterexample:
  "map t_state nanTasks = [Inbox, Inbox, Inbox]
   \<and> map t_order (inboxTasks nanTasks) = [Number 3, NaN, Number 1]
   \<and> \<not> ascending (inboxTasks nanTasks)
   \<and> numberOr0 (Some (JNum NaN)) = NaN"
  by (simp add: inboxTasks_def sortJs_def byOrder_def nanTasks_def exampleTask_def ascending_def)

text \<open>
  C7 (amended). For every task collection the Inbox view holds exactly the tasks whose
  state is inbox, each as often as the collection holds it, and no task of another
  state. If none of these tasks has the order NaN, the view is sorted ascending by
  order, and tasks of equal order keep the relative position they have in the
  collection.
\<close>

theorem C7_inboxTasks_exactly_inbox_sorted:
  "mset (inboxTasks ts) = mset (filter (\<lambda>t. t_state t = Inbox) ts)
   \<and> set (inboxTasks ts) = {t. t \<in> set ts \<and> t_state t = Inbox}
   \<and> list_all (\<lambda>t. t_state t = Inbox) (inboxTasks ts)
   \<and> (list_all (\<lambda>t. t_order t \<noteq> NaN) (filter (\<lambda>t. t_state t = Inbox) ts) \<longrightarrow>
        ascending (inboxTasks ts)
        \<and> filter (\<lambda>t. t_order t = k) (inboxTasks ts)
            = filter (\<lambda>t. t_order t = k) (filter (\<lambda>t. t_state t = Inbox) ts))"
proof (intro conjI impI)
  show "mset (inboxTasks ts) = mset (filter (\<lambda>t. t_state t = Inbox) ts)"
    by (simp add: inboxTasks_def mset_sortJs)
  show "set (inboxTasks ts) = {t. t \<in> set ts \<and> t_state t = Inbox}"
    by (auto simp: inboxTasks_def set_sortJs)
  show "list_all (\<lambda>t. t_state t = Inbox) (inboxTasks ts)"
    by (simp add: inboxTasks_def set_sortJs list_all_iff)
next
  let ?inbox = "filter (\<lambda>t. t_state t = Inbox) ts"
  let ?key = "\<lambda>a. theNumber (t_order a)"
  assume a: "list_all (\<lambda>t. t_order t \<noteq> NaN) ?inbox"
  then have eq: "inboxTasks ts = sort_key ?key ?inbox" by (rule inboxTasks_sort_key)
  from a have nn: "\<forall>y \<in> set (sort_key ?key ?inbox). t_order y \<noteq> NaN"
    by (simp add: list_all_iff)
  have "sorted (map ?key (sort_key ?key ?inbox))" by simp
  with nn have "sorted_wrt (\<lambda>a b. jsLe (t_order a) (t_order b)) (sort_key ?key ?inbox)"
    by (rule sorted_wrt_jsLe)
  then show "ascending (inboxTasks ts)" by (simp add: ascending_def eq)
  show "filter (\<lambda>t. t_order t = k) (inboxTasks ts) = filter (\<lambda>t. t_order t = k) ?inbox"
  proof (cases k)
    case NaN
    from a have "filter (\<lambda>t. t_order t = NaN) ?inbox = []"
      by (auto simp: filter_empty_conv list_all_iff)
    moreover from nn have "filter (\<lambda>t. t_order t = NaN) (sort_key ?key ?inbox) = []"
      by (auto simp: filter_empty_conv)
    ultimately show ?thesis by (simp only: NaN eq)
  next
    case (Number v)
    have 1: "filter (\<lambda>t. t_order t = Number v) (sort_key ?key ?inbox)
           = filter (\<lambda>t. ?key t = v) (sort_key ?key ?inbox)"
      using nn by (intro filter_cong refl number_key) blast
    have 2: "filter (\<lambda>t. t_order t = Number v) ?inbox = filter (\<lambda>t. ?key t = v) ?inbox"
      using a by (intro filter_cong refl number_key) (simp add: list_all_iff)
    have "filter (\<lambda>t. ?key t = v) (sort_key ?key ?inbox) = filter (\<lambda>t. ?key t = v) ?inbox"
      by (rule sort_key_stable)
    with 1 2 show ?thesis by (simp only: Number eq)
  qed
qed

text \<open>Inbox tasks with the orders 20, 10, 10, and an active task: 10, 10, 20 in the view.\<close>

theorem C7_witness:
  "list_all (\<lambda>t. t_order t \<noteq> NaN) (filter (\<lambda>t. t_state t = Inbox) mixedTasks)
   \<and> ascending (inboxTasks mixedTasks)
   \<and> filter (\<lambda>t. t_order t = Number 10) (inboxTasks mixedTasks)
       = filter (\<lambda>t. t_order t = Number 10) (filter (\<lambda>t. t_state t = Inbox) mixedTasks)
   \<and> map t_id (inboxTasks mixedTasks) = [''b'', ''d'', ''a'']"
proof -
  have h: "list_all (\<lambda>t. t_order t \<noteq> NaN) (filter (\<lambda>t. t_state t = Inbox) mixedTasks)"
    by (simp add: mixedTasks_def exampleTask_def)
  have e: "map t_id (inboxTasks mixedTasks) = [''b'', ''d'', ''a'']"
    by (simp add: inboxTasks_def sortJs_def byOrder_def mixedTasks_def exampleTask_def)
  from C7_inboxTasks_exactly_inbox_sorted[of mixedTasks "Number 10"] h e
  show ?thesis by blast
qed

subsection \<open>C9: the mapper checks that a state is present, not that it is valid\<close>

text \<open>
  C9. The task mapper returns a task whenever the timestamp conversions do not raise, and
  in every task it returns the state is the stored value itself whenever the record
  holds one that is not null, whether or not it is one of the enumerated task states;
  only an absent or null state becomes inbox.
\<close>

theorem C9_mapTaskDoc_keeps_present_state:
  "(taskStampsConvert d \<longrightarrow> (\<exists>t. mapTaskDoc now i d = Inr t))
   \<and> (\<forall>t. mapTaskDoc now i d = Inr t \<longrightarrow>
         (d ''state'' = None \<or> d ''state'' = Some JNull \<longrightarrow> t_state t = JStr ''inbox'')
         \<and> (\<forall>v. d ''state'' = Some v \<and> v \<noteq> JNull \<longrightarrow> t_state t = v))"
proof (intro conjI impI allI)
  assume "taskStampsConvert d"
  then show "\<exists>t. mapTaskDoc now i d = Inr t"
    using mapTaskDoc_returns by blast
next
  fix t assume "mapTaskDoc now i d = Inr t" and "d ''state'' = None \<or> d ''state'' = Some JNull"
  then show "t_state t = JStr ''inbox''"
    using mapTaskDoc_Inr_fields by fastforce
next
  fix t v assume "mapTaskDoc now i d = Inr t" and "d ''state'' = Some v \<and> v \<noteq> JNull"
  then show "t_state t = v"
    using mapTaskDoc_Inr_fields nullish_present by metis
qed

text \<open>A stored state \<open>archived\<close>, which is no task state, is kept as it is.\<close>

theorem C9_witness:
  "taskStampsConvert (map_of [(''state'', JStr ''archived''), (''order'', JNum (Number 30))])
   \<and> (\<exists>t. mapTaskDoc ''now'' ''doc-7'' (map_of [(''state'', JStr ''archived''), (''order'', JNum (Number 30))]) = Inr t
          \<and> t_state t = JStr ''archived'')"
proof -
  let ?d = "map_of [(''state'', JStr ''archived''), (''order'', JNum (Number 30))]"
  have h: "taskStampsConvert ?d" by (simp add: taskStampsConvert_def)
  have s: "?d ''state'' = Some (JStr ''archived'') \<and> JStr ''archived'' \<noteq> JNull" by simp
  from C9_mapTaskDoc_keeps_present_state[of ?d "''now''" "''doc-7''"] h s
  show ?thesis by blast
qed

subsection \<open>C6: defaults of the mapper\<close>

text \<open>
  C6 says that the mapper returns a record for every stored record, with defaults where
  the record is malformed. \<open>toIsoString\<close> does fall back to null for a number, an array
  or a map without the key \<open>toDate\<close>, and the mapper then takes the default. For a map
  that has a key \<open>toDate\<close> it calls what is stored there without asking whether that is a
  function: at the record below, where \<open>createdAt\<close> is the map \<open>{toDate: 5}\<close>, the mapper
  raises a TypeError where C6 wants \<open>createdAt\<close> to be the current time.
\<close>

theorem C6_mapper_raises_on_toDate_map:
  "mapTaskDoc ''now'' ''doc-9''
       (map_of [(''text'', JStr ''Buy milk''), (''createdAt'', JMap [(''toDate'', JNum (Number 5))])])
     = Inl TypeError
   \<and> mapProjectDoc ''now'' ''doc-9''
       (map_of [(''name'', JStr ''Home''), (''createdAt'', JMap [(''toDate'', JNum (Number 5))])])
     = Inl TypeError
   \<and> toIsoString (Some (JMap [(''seconds'', JNum (Number 5))])) = Inr None
   \<and> toIsoString (Some (JNum (Number 5))) = Inr None
   \<and> toIsoString (Some (JArray [])) = Inr None
   \<and> mapTaskDoc ''now'' ''doc-9''
       (map_of [(''text'', JStr ''Buy milk''), (''createdAt'', JMap [(''seconds'', JNum (Number 5))])])
     = Inr \<lparr> t_id = ''doc-9'', t_text = JStr ''Buy milk'', t_projectId = JNull, t_parentId = JNull,
             t_state = JStr ''inbox'', t_createdAt = ''now'', t_updatedAt = ''now'', t_dueAt = None,
             t_scheduledAt = None, t_doneAt = None, t_order = Number 0 \<rparr>"
  by (simp add: mapTaskDoc_def mapProjectDoc_def orNow_def)

text \<open>
  On every record whose timestamp fields hold no such map the mapper returns, with the
  defaults that C6 names: order 0 for an order that is absent or not a number, inbox
  for an absent or null state, \<open>Untitled\<close> for an absent or null project name.
\<close>

lemma mapper_defaults_when_stamps_convert:
  "(taskStampsConvert d \<longrightarrow>
      (\<exists>t. mapTaskDoc now i d = Inr t \<and> t_id t = i
         \<and> ((\<forall>n. d ''order'' \<noteq> Some (JNum n)) \<longrightarrow> t_order t = Number 0)
         \<and> (d ''state'' = None \<or> d ''state'' = Some JNull \<longrightarrow> t_state t = JStr ''inbox'')))
   \<and> (\<not> toDateIsData (d ''createdAt'') \<longrightarrow>
      (\<exists>p. mapProjectDoc now i d = Inr p \<and> p_id p = i
         \<and> ((\<forall>n. d ''order'' \<noteq> Some (JNum n)) \<longrightarrow> p_order p = Number 0)
         \<and> (d ''name'' = None \<or> d ''name'' = Some JNull \<longrightarrow> p_name p = JStr ''Untitled'')))"
proof (intro conjI impI)
  assume "taskStampsConvert d"
  from mapTaskDoc_returns[OF this, of now i]
  obtain t where t: "mapTaskDoc now i d = Inr t" "t_id t = i"
    "t_order t = numberOr0 (d ''order'')" "t_state t = nullish (d ''state'') (JStr ''inbox'')"
    by auto
  have "(\<forall>n. d ''order'' \<noteq> Some (JNum n)) \<longrightarrow> t_order t = Number 0"
    using t(3) numberOr0_not_number by simp
  moreover have "d ''state'' = None \<or> d ''state'' = Some JNull \<longrightarrow> t_state t = JStr ''inbox''"
    using t(4) by auto
  ultimately show "\<exists>t. mapTaskDoc now i d = Inr t \<and> t_id t = i
         \<and> ((\<forall>n. d ''order'' \<noteq> Some (JNum n)) \<longrightarrow> t_order t = Number 0)
         \<and> (d ''state'' = None \<or> d ''state'' = Some JNull \<longrightarrow> t_state t = JStr ''inbox'')"
    using t(1,2) by blast
next
  assume a: "\<not> toDateIsData (d ''createdAt'')"
  from mapProjectDoc_returns[of d now i] a
  obtain p where p: "mapProjectDoc now i d = Inr p" "p_id p = i"
    "p_order p = numberOr0 (d ''order'')" "p_name p = nullish (d ''name'') (JStr ''Untitled'')"
    by auto
  have "(\<forall>n. d ''order'' \<noteq> Some (JNum n)) \<longrightarrow> p_order p = Number 0"
    using p(3) numberOr0_not_number by simp
  moreover have "d ''name'' = None \<or> d ''name'' = Some JNull \<longrightarrow> p_name p = JStr ''Untitled''"
    using p(4) by auto
  ultimately show "\<exists>p. mapProjectDoc now i d = Inr p \<and> p_id p = i
         \<and> ((\<forall>n. d ''order'' \<noteq> Some (JNum n)) \<longrightarrow> p_order p = Number 0)
         \<and> (d ''name'' = None \<or> d ''name'' = Some JNull \<longrightarrow> p_name p = JStr ''Untitled'')"
    using p(1,2) by blast
qed

subsection \<open>C10: quick add of blank text\<close>

text \<open>
  C10. Quick add with a text that is empty or white space only does nothing: the outcome
  is the unchanged state, no write is dispatched and no task is appended. With any
  other text the insert that is dispatched carries the trimmed text, and once the
  store has answered with an identifier the task list is the old one followed by one
  new inbox task whose text is the trimmed input.
\<close>

theorem C10_addQuickTask_blank_is_noop:
  "(list_all isWhiteSpace (quickText st) \<longrightarrow>
      addQuickTask remote now st = \<lparr> final = st, trace = [], raised = None \<rparr>)
   \<and> (\<not> list_all isWhiteSpace (quickText st) \<longrightarrow>
      hd (trace (addQuickTask remote now st))
        = Dispatch (AddTask (trim (quickText st)) ''p-default'' (nextOrder (tasks st)))
      \<and> (\<forall>docId. addDoc remote (AddTask (trim (quickText st)) ''p-default'' (nextOrder (tasks st))) = Some docId \<longrightarrow>
            (\<exists>newTask. tasks (final (addQuickTask remote now st)) = tasks st @ [newTask]
               \<and> t_text newTask = trim (quickText st) \<and> t_id newTask = docId
               \<and> t_state newTask = Inbox)))"
proof (intro conjI impI allI)
  assume "list_all isWhiteSpace (quickText st)"
  then have "trim (quickText st) = []" by (simp add: trim_Nil_iff)
  then show "addQuickTask remote now st = \<lparr> final = st, trace = [], raised = None \<rparr>"
    by (simp add: addQuickTask_def)
next
  assume "\<not> list_all isWhiteSpace (quickText st)"
  then have ne: "trim (quickText st) \<noteq> []" by (simp add: trim_Nil_iff)
  then show "hd (trace (addQuickTask remote now st))
        = Dispatch (AddTask (trim (quickText st)) ''p-default'' (nextOrder (tasks st)))"
    by (simp add: addQuickTask_def Let_def split: option.splits)
  fix docId
  assume "addDoc remote (AddTask (trim (quickText st)) ''p-default'' (nextOrder (tasks st))) = Some docId"
  with ne show "\<exists>newTask. tasks (final (addQuickTask remote now st)) = tasks st @ [newTask]
               \<and> t_text newTask = trim (quickText st) \<and> t_id newTask = docId
               \<and> t_state newTask = Inbox"
    by (simp add: addQuickTask_def Let_def)
qed

text \<open>
  An ideographic space, a space and a byte order mark; a single blank; and \<open>Buy milk\<close>
  between an ideographic space and a blank, on the example forest.
\<close>

theorem C10_witness:
  "list_all isWhiteSpace (quickText ((exampleState familyTasks [])\<lparr> quickText := [0x3000, 0x0020, 0xFEFF] \<rparr>))
   \<and> addQuickTask acceptAll ''now'' ((exampleState familyTasks [])\<lparr> quickText := [0x3000, 0x0020, 0xFEFF] \<rparr>)
       = \<lparr> final = (exampleState familyTasks [])\<lparr> quickText := [0x3000, 0x0020, 0xFEFF] \<rparr>,
           trace = [], raised = None \<rparr>
   \<and> list_all isWhiteSpace (quickText (exampleState familyTasks '' ''))
   \<and> addQuickTask acceptAll ''now'' (exampleState familyTasks '' '')
       = \<lparr> final = exampleState familyTasks '' '', trace = [], raised = None \<rparr>
   \<and> \<not> list_all isWhiteSpace (quickText ((exampleState familyTasks [])\<lparr> quickText := 0x3000 # js ''Buy milk '' \<rparr>))
   \<and> (\<exists>newTask. tasks (final (addQuickTask acceptAll ''now''
                                  ((exampleState familyTasks [])\<lparr> quickText := 0x3000 # js ''Buy milk '' \<rparr>)))
          = familyTasks @ [newTask] \<and> t_text newTask = js ''Buy milk'' \<and> t_id newTask = ''doc-1'')"
proof -
  let ?wide = "(exampleState familyTasks [])\<lparr> quickText := [0x3000, 0x0020, 0xFEFF] \<rparr>"
  let ?milk = "(exampleState familyTasks [])\<lparr> quickText := 0x3000 # js ''Buy milk '' \<rparr>"
  have w: "list_all isWhiteSpace (quickText ?wide)"
    by (simp add: isWhiteSpace_def)
  have b: "list_all isWhiteSpace (quickText (exampleState familyTasks '' ''))"
    by (simp add: exampleState_def js_def isWhiteSpace_def)
  have n: "\<not> list_all isWhiteSpace (quickText ?milk)"
    by (simp add: js_def isWhiteSpace_def)
  have t: "trim (quickText ?milk) = js ''Buy milk''"
    by (simp add: trim_def js_def isWhiteSpace_def)
  have a: "addDoc acceptAll w = Some ''doc-1''" for w
    by (simp add: acceptAll_def)
  have ts: "tasks ?milk = familyTasks"
    by (simp add: exampleState_def)
  from C10_addQuickTask_blank_is_noop[of ?wide acceptAll "''now''"] w
  have 0: "addQuickTask acceptAll ''now'' ?wide = \<lparr> final = ?wide, trace = [], raised = None \<rparr>"
    by blast
  from C10_addQuickTask_blank_is_noop[of "exampleState familyTasks '' ''" acceptAll "''now''"] b
  have 1: "addQuickTask acceptAll ''now'' (exampleState familyTasks '' '')
       = \<lparr> final = exampleState familyTasks '' '', trace = [], raised = None \<rparr>" by blast
  from C10_addQuickTask_blank_is_noop[of ?milk acceptAll "''now''"] n a
  have 2: "\<exists>newTask. tasks (final (addQuickTask acceptAll ''now'' ?milk))
          = familyTasks @ [newTask] \<and> t_text newTask = js ''Buy milk'' \<and> t_id newTask = ''doc-1''"
    unfolding t ts by blast
  from w b n 0 1 2 show ?thesis by blast
qed

subsection \<open>C4: the completion time follows the state\<close>

text \<open>
  C4. A patch that sets a state other than done changes only the tasks with the given
  identifier: they get that state, their completion time becomes null if they were
  done and is kept otherwise, and every other task, descendants included, is
  unchanged. A patch that sets done, once the traversal has returned and the update is
  applied (the user confirmed, or no descendant was left to confirm), gives every task
  with the given identifier state done and the current time as completion time. And
  for every patch, stack and answer: a task that was not done and is done afterwards
  has the current time as completion time, and a task that was done and is not done
  afterwards has none. The traversal returns whenever the parent relation has no
  cycle and the stack is deep enough.
\<close>

theorem C4_doneAt_follows_state:
  "(patch_state patch = Some s \<and> s \<noteq> Done \<longrightarrow>
      list_all2 (\<lambda>t t'. if t_id t = i
                         then t_state t' = s
                              \<and> (if t_state t = Done then t_doneAt t' = None
                                  else t_doneAt t' = t_doneAt t)
                         else t' = t)
        (tasks st) (tasks (final (updateTask stack confirmed remote now i patch st))))
   \<and> (patch_state patch = Some Done \<and> getDescendantTasks stack i (tasks st) = Some ds
        \<and> (confirmed \<or> list_all (\<lambda>d. t_state d = Done) ds) \<longrightarrow>
      list_all2 (\<lambda>t t'. t_id t = i \<longrightarrow> t_state t' = Done \<and> t_doneAt t' = Some now)
        (tasks st) (tasks (final (updateTask stack confirmed remote now i patch st))))
   \<and> list_all2 (\<lambda>t t'. t_state t \<noteq> Done \<and> t_state t' = Done \<longrightarrow> t_doneAt t' = Some now)
        (tasks st) (tasks (final (updateTask stack confirmed remote now i patch st)))
   \<and> list_all2 (\<lambda>t t'. t_state t = Done \<and> t_state t' \<noteq> Done \<longrightarrow> t_doneAt t' = None)
        (tasks st) (tasks (final (updateTask stack confirmed remote now i patch st)))
   \<and> (ranked rank (tasks st) \<and> rank i < stack \<longrightarrow>
        (\<exists>ds. getDescendantTasks stack i (tasks st) = Some ds))"
proof (intro conjI impI)
  assume a: "patch_state patch = Some s \<and> s \<noteq> Done"
  then have "patch_state patch \<noteq> Some Done" by auto
  from updateTask_other[OF this, of stack confirmed remote now i st] a
  show "list_all2 (\<lambda>t t'. if t_id t = i
                         then t_state t' = s
                              \<and> (if t_state t = Done then t_doneAt t' = None
                                  else t_doneAt t' = t_doneAt t)
                         else t' = t)
        (tasks st) (tasks (final (updateTask stack confirmed remote now i patch st)))"
    by (simp add: list_all2_map2 list_all2_same spreadPatch_def override_def)
next
  assume a: "patch_state patch = Some Done \<and> getDescendantTasks stack i (tasks st) = Some ds
        \<and> (confirmed \<or> list_all (\<lambda>d. t_state d = Done) ds)"
  then have h: "patch_state patch = Some Done" "getDescendantTasks stack i (tasks st) = Some ds"
    by simp_all
  from a have "confirmed \<or> filter (\<lambda>t. t_state t \<noteq> Done) ds = []"
    by (auto simp: filter_empty_conv list_all_iff)
  from updateTask_done_applied[OF h this, of remote now]
  show "list_all2 (\<lambda>t t'. t_id t = i \<longrightarrow> t_state t' = Done \<and> t_doneAt t' = Some now)
        (tasks st) (tasks (final (updateTask stack confirmed remote now i patch st)))"
    by (simp add: list_all2_map2 list_all2_same markDone_def)
next
  show "list_all2 (\<lambda>t t'. t_state t \<noteq> Done \<and> t_state t' = Done \<longrightarrow> t_doneAt t' = Some now)
        (tasks st) (tasks (final (updateTask stack confirmed remote now i patch st)))"
    by (rule updateTask_into_done)
  show "list_all2 (\<lambda>t t'. t_state t = Done \<and> t_state t' \<noteq> Done \<longrightarrow> t_doneAt t' = None)
        (tasks st) (tasks (final (updateTask stack confirmed remote now i patch st)))"
    by (rule updateTask_out_of_done)
next
  assume "ranked rank (tasks st) \<and> rank i < stack"
  then show "\<exists>ds. getDescendantTasks stack i (tasks st) = Some ds"
    using getDescendantTasks_returns by blast
qed

text \<open>
  Reopening the done task \<open>t-5\<close>, and finishing the leaf \<open>t-4\<close>, in the list that has a
  cycle elsewhere; the ranking of the example forest.
\<close>

theorem C4_witness:
  "(patch_state (statePatch Active) = Some Active \<and> Active \<noteq> Done)
   \<and> list_all2 (\<lambda>t t'. if t_id t = ''t-5''
                         then t_state t' = Active
                              \<and> (if t_state t = Done then t_doneAt t' = None
                                  else t_doneAt t' = t_doneAt t)
                         else t' = t)
        (tasks (exampleState elsewhereTasks []))
        (tasks (final (updateTask 2 False acceptAll ''now'' ''t-5'' (statePatch Active)
                         (exampleState elsewhereTasks []))))
   \<and> (patch_state (statePatch Done) = Some Done
        \<and> getDescendantTasks 2 ''t-4'' (tasks (exampleState elsewhereTasks [])) = Some []
        \<and> (False \<or> list_all (\<lambda>d. t_state d = Done) []))
   \<and> list_all2 (\<lambda>t t'. t_id t = ''t-4'' \<longrightarrow> t_state t' = Done \<and> t_doneAt t' = Some ''now'')
        (tasks (exampleState elsewhereTasks []))
        (tasks (final (updateTask 2 False acceptAll ''now'' ''t-4'' (statePatch Done)
                         (exampleState elsewhereTasks []))))
   \<and> (ranked familyRank (tasks (exampleState familyTasks [])) \<and> familyRank ''t-3'' < 2)
   \<and> (\<exists>ds. getDescendantTasks 2 ''t-3'' (tasks (exampleState familyTasks [])) = Some ds)"
proof -
  have a: "patch_state (statePatch Active) = Some Active \<and> Active \<noteq> Done"
    by (simp add: statePatch_state)
  have b: "patch_state (statePatch Done) = Some Done
        \<and> getDescendantTasks 2 ''t-4'' (tasks (exampleState elsewhereTasks [])) = Some []
        \<and> (False \<or> list_all (\<lambda>d. t_state d = Done) [])"
    by (simp add: statePatch_state family_tasks numeral_2_eq_2 getDescendantTasks.simps
        elsewhereTasks_def familyTasks_def exampleTask_def Let_def)
  have c: "ranked familyRank (tasks (exampleState familyTasks [])) \<and> familyRank ''t-3'' < 2"
    by (simp add: family_tasks family_ranked familyRank_def)
  from C4_doneAt_follows_state[of "statePatch Active" Active "''t-5''" "exampleState elsewhereTasks []"
         2 False acceptAll "''now''" "[]" familyRank] a
  have 1: "list_all2 (\<lambda>t t'. if t_id t = ''t-5''
                         then t_state t' = Active
                              \<and> (if t_state t = Done then t_doneAt t' = None
                                  else t_doneAt t' = t_doneAt t)
                         else t' = t)
        (tasks (exampleState elsewhereTasks []))
        (tasks (final (updateTask 2 False acceptAll ''now'' ''t-5'' (statePatch Active)
                         (exampleState elsewhereTasks []))))" by blast
  from C4_doneAt_follows_state[of "statePatch Done" Done "''t-4''" "exampleState elsewhereTasks []"
         2 False acceptAll "''now''" "[]" familyRank] b
  have 2: "list_all2 (\<lambda>t t'. t_id t = ''t-4'' \<longrightarrow> t_state t' = Done \<and> t_doneAt t' = Some ''now'')
        (tasks (exampleState elsewhereTasks []))
        (tasks (final (updateTask 2 False acceptAll ''now'' ''t-4'' (statePatch Done)
                         (exampleState elsewhereTasks []))))" by blast
  from C4_doneAt_follows_state[of "statePatch Done" Done "''t-3''" "exampleState familyTasks []"
         2 False acceptAll "''now''" "[]" familyRank] c
  have 3: "\<exists>ds. getDescendantTasks 2 ''t-3'' (tasks (exampleState familyTasks [])) = Some ds" by blast
  from a b c 1 2 3 show ?thesis by blast
qed

subsection \<open>C2: declining a confirmation\<close>

text \<open>
  C2. Whenever \<open>updateTask\<close> has shown its prompt and the user declines, the outcome is
  the state as it was, tasks and projects, a trace that holds the prompt and nothing
  else, so that no write reaches the store, and no error. The prompt is shown
  whenever the task is marked done, the traversal returns and a descendant is not
  done. With such a descendant and a refusal nothing changes even when the traversal
  does not return: then the handler ends in a RangeError before it has set or sent
  anything. A declined prompt of the project handler, shown when the project is set
  to done and one of its tasks is not done, likewise leaves the state and sends
  nothing.
\<close>

theorem C2_declined_confirmation_changes_nothing:
  "(Prompt n \<in> set (trace (updateTask stack False remote now i patch st)) \<longrightarrow>
      updateTask stack False remote now i patch st
        = \<lparr> final = st, trace = [Prompt n], raised = None \<rparr>)
   \<and> (patch_state patch = Some Done \<and> getDescendantTasks stack i (tasks st) = Some ds
        \<and> descendant (tasks st) i d \<and> t_state d \<noteq> Done \<longrightarrow>
      (\<exists>n. 0 < n \<and> updateTask stack False remote now i patch st
              = \<lparr> final = st, trace = [Prompt n], raised = None \<rparr>))
   \<and> (patch_state patch = Some Done \<and> descendant (tasks st) i d \<and> t_state d \<noteq> Done \<longrightarrow>
      final (updateTask stack False remote now i patch st) = st
      \<and> filter isDispatch (trace (updateTask stack False remote now i patch st)) = [])
   \<and> (t \<in> set (tasks st) \<and> t_projectId t = Some sel \<and> t_state t \<noteq> Done \<longrightarrow>
      (\<exists>n. 0 < n \<and> projectStatusOnChange False remote now sel ProjectDone st
              = \<lparr> final = st, trace = [Prompt n], raised = None \<rparr>))"
proof (intro conjI impI)
  assume "Prompt n \<in> set (trace (updateTask stack False remote now i patch st))"
  then show "updateTask stack False remote now i patch st
        = \<lparr> final = st, trace = [Prompt n], raised = None \<rparr>"
    by (rule prompt_shown_declined)
next
  assume "patch_state patch = Some Done \<and> getDescendantTasks stack i (tasks st) = Some ds
        \<and> descendant (tasks st) i d \<and> t_state d \<noteq> Done"
  then have a: "patch_state patch = Some Done" "getDescendantTasks stack i (tasks st) = Some ds"
      "descendant (tasks st) i d" "t_state d \<noteq> Done" by simp_all
  show "\<exists>n. 0 < n \<and> updateTask stack False remote now i patch st
              = \<lparr> final = st, trace = [Prompt n], raised = None \<rparr>"
    by (rule cascade_declined_returned[OF a])
next
  assume "patch_state patch = Some Done \<and> descendant (tasks st) i d \<and> t_state d \<noteq> Done"
  then have a: "patch_state patch = Some Done" "descendant (tasks st) i d" "t_state d \<noteq> Done"
    by simp_all
  from declined_or_overflow_unchanged[OF a, of stack remote now]
  show "final (updateTask stack False remote now i patch st) = st"
    and "filter isDispatch (trace (updateTask stack False remote now i patch st)) = []"
    by simp_all
next
  assume "t \<in> set (tasks st) \<and> t_projectId t = Some sel \<and> t_state t \<noteq> Done"
  then have a: "t \<in> set (tasks st)" "t_projectId t = Some sel" "t_state t \<noteq> Done" by simp_all
  show "\<exists>n. 0 < n \<and> projectStatusOnChange False remote now sel ProjectDone st
              = \<lparr> final = st, trace = [Prompt n], raised = None \<rparr>"
    by (rule project_declined[OF a])
qed

text \<open>
  Declining for the task \<open>t-3\<close> and for the project \<open>p-work\<close>, in the list that has a cycle
  elsewhere.
\<close>

theorem C2_witness:
  "Prompt 1 \<in> set (trace (updateTask 2 False acceptAll ''now'' ''t-3'' (statePatch Done)
                             (exampleState elsewhereTasks [])))
   \<and> updateTask 2 False acceptAll ''now'' ''t-3'' (statePatch Done) (exampleState elsewhereTasks [])
       = \<lparr> final = exampleState elsewhereTasks [], trace = [Prompt 1], raised = None \<rparr>
   \<and> (patch_state (statePatch Done) = Some Done
        \<and> getDescendantTasks 2 ''t-3'' (tasks (exampleState elsewhereTasks []))
            = Some [exampleTask ''t-4'' (Some ''p-work'') (Some ''t-3'') Active None 10,
                    exampleTask ''t-5'' (Some ''p-work'') (Some ''t-3'') Done (Some ''day-2'') 20]
        \<and> descendant (tasks (exampleState elsewhereTasks [])) ''t-3''
             (exampleTask ''t-4'' (Some ''p-work'') (Some ''t-3'') Active None 10)
        \<and> t_state (exampleTask ''t-4'' (Some ''p-work'') (Some ''t-3'') Active None 10) \<noteq> Done)
   \<and> final (updateTask 2 False acceptAll ''now'' ''t-3'' (statePatch Done) (exampleState elsewhereTasks []))
       = exampleState elsewhereTasks []
   \<and> filter isDispatch (trace (updateTask 2 False acceptAll ''now'' ''t-3'' (statePatch Done)
                                  (exampleState elsewhereTasks []))) = []
   \<and> (exampleTask ''t-4'' (Some ''p-work'') (Some ''t-3'') Active None 10 \<in> set (tasks (exampleState elsewhereTasks []))
      \<and> t_projectId (exampleTask ''t-4'' (Some ''p-work'') (Some ''t-3'') Active None 10) = Some ''p-work'')
   \<and> (\<exists>n. 0 < n \<and> projectStatusOnChange False acceptAll ''now'' ''p-work'' ProjectDone (exampleState elsewhereTasks [])
              = \<lparr> final = exampleState elsewhereTasks [], trace = [Prompt n], raised = None \<rparr>)"
proof -
  let ?st = "exampleState elsewhereTasks []"
  let ?t4 = "exampleTask ''t-4'' (Some ''p-work'') (Some ''t-3'') Active None 10"
  let ?ds = "[?t4, exampleTask ''t-5'' (Some ''p-work'') (Some ''t-3'') Done (Some ''day-2'') 20]"
  have h: "patch_state (statePatch Done) = Some Done
        \<and> getDescendantTasks 2 ''t-3'' (tasks ?st) = Some ?ds
        \<and> descendant (tasks ?st) ''t-3'' ?t4 \<and> t_state ?t4 \<noteq> Done"
    by (simp add: family_tasks statePatch_state elsewhere_traversal elsewhere_t4)
       (simp add: exampleTask_def)
  then have h': "patch_state (statePatch Done) = Some Done
        \<and> descendant (tasks ?st) ''t-3'' ?t4 \<and> t_state ?t4 \<noteq> Done"
    by simp
  have g: "?t4 \<in> set (tasks ?st) \<and> t_projectId ?t4 = Some ''p-work''"
    by (simp add: family_tasks elsewhereTasks_def familyTasks_def) (simp add: exampleTask_def)
  have s: "t_state ?t4 \<noteq> Done" using h by simp
  have p: "Prompt 1 \<in> set (trace (updateTask 2 False acceptAll ''now'' ''t-3'' (statePatch Done) ?st))"
    by (simp add: updateTask_def statePatch_state family_tasks elsewhere_traversal Let_def)
       (simp add: exampleTask_def)
  note C2 = C2_declined_confirmation_changes_nothing[of 1 2 acceptAll "''now''" "''t-3''"
         "statePatch Done" ?st ?ds ?t4 ?t4 "''p-work''"]
  from C2 p have 1: "updateTask 2 False acceptAll ''now'' ''t-3'' (statePatch Done) ?st
       = \<lparr> final = ?st, trace = [Prompt 1], raised = None \<rparr>" by blast
  from C2 h' have 2: "final (updateTask 2 False acceptAll ''now'' ''t-3'' (statePatch Done) ?st) = ?st
      \<and> filter isDispatch (trace (updateTask 2 False acceptAll ''now'' ''t-3'' (statePatch Done) ?st)) = []"
    by blast
  from C2 g s have 3: "\<exists>n. 0 < n \<and> projectStatusOnChange False acceptAll ''now'' ''p-work'' ProjectDone ?st
              = \<lparr> final = ?st, trace = [Prompt n], raised = None \<rparr>" by blast
  from p 1 h 2 g 3 show ?thesis by blast
qed

subsection \<open>C8: the cascade covers every descendant, done or not\<close>

text \<open>
  C8. When a task is marked done, the traversal has returned and the update is applied
  (the user confirmed, or no descendant was left to confirm), the list the traversal
  returned holds exactly the transitive descendants of the task, and the tasks that
  are updated are those with the identifier of the task or of any of these
  descendants, whatever their state: each gets state done and \<open>doneAt\<close> and \<open>updatedAt\<close>
  set to the current time. So a descendant that was done already reappears with its
  completion time overwritten. The traversal returns whenever the parent relation has
  no cycle and the stack is deep enough.
\<close>

theorem C8_cascade_restamps_done_descendants:
  "(patch_state patch = Some Done \<and> getDescendantTasks stack i (tasks st) = Some ds
      \<and> (confirmed \<or> (\<forall>d. descendant (tasks st) i d \<longrightarrow> t_state d = Done)) \<longrightarrow>
      set ds = {d. descendant (tasks st) i d}
      \<and> tasks (final (updateTask stack confirmed remote now i patch st))
         = map (\<lambda>t. if t_id t = i \<or> (\<exists>d. descendant (tasks st) i d \<and> t_id d = t_id t)
                    then t\<lparr> t_state := Done, t_doneAt := Some now, t_updatedAt := now \<rparr> else t) (tasks st)
      \<and> (\<forall>d. descendant (tasks st) i d \<and> t_state d = Done \<longrightarrow>
            d\<lparr> t_state := Done, t_doneAt := Some now, t_updatedAt := now \<rparr>
              \<in> set (tasks (final (updateTask stack confirmed remote now i patch st)))))
   \<and> (ranked rank (tasks st) \<and> rank i < stack \<longrightarrow>
        (\<exists>ds. getDescendantTasks stack i (tasks st) = Some ds))"
proof (intro conjI impI)
  assume a: "patch_state patch = Some Done \<and> getDescendantTasks stack i (tasks st) = Some ds
      \<and> (confirmed \<or> (\<forall>d. descendant (tasks st) i d \<longrightarrow> t_state d = Done))"
  then have h: "patch_state patch = Some Done" "getDescendantTasks stack i (tasks st) = Some ds"
    "confirmed \<or> (\<forall>d. descendant (tasks st) i d \<longrightarrow> t_state d = Done)" by simp_all
  from h(2) show "set ds = {d. descendant (tasks st) i d}" by (rule getDescendantTasks_set)
  show eq: "tasks (final (updateTask stack confirmed remote now i patch st))
       = map (\<lambda>t. if t_id t = i \<or> (\<exists>d. descendant (tasks st) i d \<and> t_id d = t_id t)
                  then t\<lparr> t_state := Done, t_doneAt := Some now, t_updatedAt := now \<rparr> else t) (tasks st)"
    using cascade_tasks_returned[OF h, of remote now] unfolding markDone_def .
  have "d\<lparr> t_state := Done, t_doneAt := Some now, t_updatedAt := now \<rparr>
             \<in> set (tasks (final (updateTask stack confirmed remote now i patch st)))"
    if d: "descendant (tasks st) i d" for d
  proof -
    from d have "d \<in> set (tasks st)" by (induction rule: descendant.induct) auto
    moreover from d have "t_id d = i \<or> (\<exists>x. descendant (tasks st) i x \<and> t_id x = t_id d)" by blast
    ultimately show ?thesis unfolding eq by (auto simp: image_iff intro!: bexI[of _ d])
  qed
  then show "\<forall>d. descendant (tasks st) i d \<and> t_state d = Done \<longrightarrow>
            d\<lparr> t_state := Done, t_doneAt := Some now, t_updatedAt := now \<rparr>
              \<in> set (tasks (final (updateTask stack confirmed remote now i patch st)))"
    by blast
next
  assume "ranked rank (tasks st) \<and> rank i < stack"
  then show "\<exists>ds. getDescendantTasks stack i (tasks st) = Some ds"
    using getDescendantTasks_returns by blast
qed

text \<open>
  Marking \<open>t-3\<close> done in the list that has a cycle elsewhere: its child \<open>t-5\<close>, done since
  day 2, is stamped with the new time. The ranking of the example forest.
\<close>

theorem C8_witness:
  "(patch_state (statePatch Done) = Some Done
      \<and> getDescendantTasks 2 ''t-3'' (tasks (exampleState elsewhereTasks []))
          = Some [exampleTask ''t-4'' (Some ''p-work'') (Some ''t-3'') Active None 10,
                  exampleTask ''t-5'' (Some ''p-work'') (Some ''t-3'') Done (Some ''day-2'') 20])
   \<and> descendant (tasks (exampleState elsewhereTasks [])) ''t-3''
        (exampleTask ''t-5'' (Some ''p-work'') (Some ''t-3'') Done (Some ''day-2'') 20)
   \<and> t_doneAt (exampleTask ''t-5'' (Some ''p-work'') (Some ''t-3'') Done (Some ''day-2'') 20) = Some ''day-2''
   \<and> (exampleTask ''t-5'' (Some ''p-work'') (Some ''t-3'') Done (Some ''day-2'') 20)
        \<lparr> t_state := Done, t_doneAt := Some ''now'', t_updatedAt := ''now'' \<rparr>
      \<in> set (tasks (final (updateTask 2 True acceptAll ''now'' ''t-3'' (statePatch Done)
                              (exampleState elsewhereTasks []))))
   \<and> (ranked familyRank (tasks (exampleState familyTasks [])) \<and> familyRank ''t-3'' < 2)
   \<and> (\<exists>ds. getDescendantTasks 2 ''t-3'' (tasks (exampleState familyTasks [])) = Some ds)"
proof -
  let ?st = "exampleState elsewhereTasks []"
  let ?t5 = "exampleTask ''t-5'' (Some ''p-work'') (Some ''t-3'') Done (Some ''day-2'') 20"
  let ?ds = "[exampleTask ''t-4'' (Some ''p-work'') (Some ''t-3'') Active None 10, ?t5]"
  have h: "patch_state (statePatch Done) = Some Done
      \<and> getDescendantTasks 2 ''t-3'' (tasks ?st) = Some ?ds"
    by (simp add: family_tasks statePatch_state elsewhere_traversal)
  have c: "True \<or> (\<forall>d. descendant (tasks ?st) ''t-3'' d \<longrightarrow> t_state d = Done)"
    by simp
  have d: "descendant (tasks ?st) ''t-3'' ?t5"
    by (simp add: family_tasks elsewhere_t5)
  have s: "t_state ?t5 = Done" "t_doneAt ?t5 = Some ''day-2''"
    by (simp_all add: exampleTask_def)
  have r: "ranked familyRank (tasks (exampleState familyTasks [])) \<and> familyRank ''t-3'' < 2"
    by (simp add: family_tasks family_ranked familyRank_def)
  from C8_cascade_restamps_done_descendants[of "statePatch Done" 2 "''t-3''" ?st ?ds True
         acceptAll "''now''" familyRank] h c d s
  have 1: "?t5\<lparr> t_state := Done, t_doneAt := Some ''now'', t_updatedAt := ''now'' \<rparr>
      \<in> set (tasks (final (updateTask 2 True acceptAll ''now'' ''t-3'' (statePatch Done) ?st)))"
    by blast
  from C8_cascade_restamps_done_descendants[of "statePatch Done" 2 "''t-3''"
         "exampleState familyTasks []" ?ds True acceptAll "''now''" familyRank] r
  have 2: "\<exists>ds. getDescendantTasks 2 ''t-3'' (tasks (exampleState familyTasks [])) = Some ds"
    by blast
  from h d s r 1 2 show ?thesis by blast
qed

subsection \<open>C1: the cascade of a task\<close>

text \<open>
  As stated, C1 lets only the task and its descendants that are not done change. In the
  example \<open>t-3\<close> has one such descendant, \<open>t-4\<close>; the fourth task \<open>t-5\<close> is neither \<open>t-3\<close> nor
  a descendant that is not done, and its completion time changes from day 2 to now.
\<close>

theorem C1_counterexample:
  "t_parentId (familyTasks ! 2) = Some ''t-3'' \<and> t_state (familyTasks ! 2) = Active
   \<and> t_id (familyTasks ! 3) \<noteq> ''t-3''
   \<and> t_state (familyTasks ! 3) = Done
   \<and> t_doneAt (familyTasks ! 3) = Some ''day-2''
   \<and> t_doneAt (tasks (final (updateTask 2 True acceptAll ''now'' ''t-3'' (statePatch Done)
                                (exampleState familyTasks []))) ! 3) = Some ''now''"
  by (simp add: updateTask_def statePatch_def exampleState_def familyTasks_def exampleTask_def
      markDone_def numeral_2_eq_2 getDescendantTasks.simps Let_def)

text \<open>
  C1 (amended). Let the parent relation be free of cycles, the call stack deep enough, and
  let a task with identifier \<open>i\<close> be marked done while it has a descendant that is not
  done. If the user confirms, every task whose identifier is \<open>i\<close> or that of a descendant
  of \<open>i\<close> ends with state done and a completion time that is not null, and every other
  task is unchanged. If the user declines, the state is unchanged.
\<close>

theorem C1_task_cascade_confirmed_or_declined:
  assumes "ranked rank (tasks st)" and "rank i < stack" and "patch_state patch = Some Done"
    and "descendant (tasks st) i d" and "t_state d \<noteq> Done"
  shows "(confirmed \<longrightarrow>
            list_all2 (\<lambda>t t'. if t_id t = i \<or> (\<exists>x. descendant (tasks st) i x \<and> t_id x = t_id t)
                              then t_state t' = Done \<and> t_doneAt t' \<noteq> None
                              else t' = t)
              (tasks st) (tasks (final (updateTask stack confirmed remote now i patch st))))
       \<and> (\<not> confirmed \<longrightarrow> final (updateTask stack confirmed remote now i patch st) = st)"
proof (intro conjI impI)
  assume c: "confirmed"
  then have "confirmed \<or> (\<forall>d. descendant (tasks st) i d \<longrightarrow> t_state d = Done)" by simp
  from cascade_tasks[OF assms(1,2,3) this, of remote now]
  show "list_all2 (\<lambda>t t'. if t_id t = i \<or> (\<exists>x. descendant (tasks st) i x \<and> t_id x = t_id t)
                              then t_state t' = Done \<and> t_doneAt t' \<noteq> None
                              else t' = t)
              (tasks st) (tasks (final (updateTask stack confirmed remote now i patch st)))"
    by (auto simp: list_all2_map2 list_all2_same markDone_def)
next
  assume "\<not> confirmed"
  with cascade_declined[OF assms, of remote now]
  show "final (updateTask stack confirmed remote now i patch st) = st" by auto
qed

text \<open>The example forest, marking \<open>t-3\<close> done, once confirmed and once declined.\<close>

theorem C1_witness:
  "ranked familyRank (tasks (exampleState familyTasks []))
   \<and> familyRank ''t-3'' < 2
   \<and> patch_state (statePatch Done) = Some Done
   \<and> descendant (tasks (exampleState familyTasks [])) ''t-3''
        (exampleTask ''t-4'' (Some ''p-work'') (Some ''t-3'') Active None 10)
   \<and> t_state (exampleTask ''t-4'' (Some ''p-work'') (Some ''t-3'') Active None 10) \<noteq> Done
   \<and> list_all2 (\<lambda>t t'. if t_id t = ''t-3'' \<or> (\<exists>x. descendant (tasks (exampleState familyTasks [])) ''t-3'' x \<and> t_id x = t_id t)
                              then t_state t' = Done \<and> t_doneAt t' \<noteq> None
                              else t' = t)
              (tasks (exampleState familyTasks []))
              (tasks (final (updateTask 2 True acceptAll ''now'' ''t-3'' (statePatch Done) (exampleState familyTasks []))))
   \<and> final (updateTask 2 False acceptAll ''now'' ''t-3'' (statePatch Done) (exampleState familyTasks []))
       = exampleState familyTasks []"
proof -
  have r: "ranked familyRank (tasks (exampleState familyTasks []))"
    by (simp add: family_tasks family_ranked)
  have k: "familyRank ''t-3'' < 2" by (simp add: familyRank_def)
  have p: "patch_state (statePatch Done) = Some Done" by (rule statePatch_state)
  have d: "descendant (tasks (exampleState familyTasks [])) ''t-3''
        (exampleTask ''t-4'' (Some ''p-work'') (Some ''t-3'') Active None 10)"
    by (simp add: family_tasks family_t4)
  have s: "t_state (exampleTask ''t-4'' (Some ''p-work'') (Some ''t-3'') Active None 10) \<noteq> Done"
    by (simp add: exampleTask_def)
  from C1_task_cascade_confirmed_or_declined[OF r k p d s, of True acceptAll "''now''"]
       C1_task_cascade_confirmed_or_declined[OF r k p d s, of False acceptAll "''now''"]
       r k p d s
  show ?thesis by simp
qed

subsection \<open>C3: the cascade of a project\<close>

text \<open>
  As stated, C3 promises a completion time for all three tasks of a project with two
  active tasks and one done. The handler skips the tasks that are done, so a done task
  that was stored without a completion time still has none afterwards.
\<close>

theorem C3_counterexample:
  "map t_projectId workTasks = [Some ''p-work'', Some ''p-work'', Some ''p-work'']
   \<and> map t_state workTasks = [Active, Active, Done]
   \<and> map t_state (tasks (final (projectStatusOnChange True acceptAll ''now'' ''p-work'' ProjectDone
                                   (exampleState workTasks [])))) = [Done, Done, Done]
   \<and> map t_doneAt (tasks (final (projectStatusOnChange True acceptAll ''now'' ''p-work'' ProjectDone
                                   (exampleState workTasks [])))) = [Some ''now'', Some ''now'', None]"
  by (simp add: projectStatusOnChange_def finishProject_def exampleState_def workTasks_def
      exampleTask_def markDone_def acceptAll_def Let_def)

text \<open>
  C3 (amended). Setting a project to done while one of its tasks is not done shows the
  prompt first. After a confirmation every task of the project has state done: those
  that were not done get the current time as completion time, those that were done
  are left exactly as they were, and the tasks of other projects are unchanged. After
  a refusal the state is unchanged.
\<close>

theorem C3_project_cascade:
  assumes "t \<in> set (tasks st)" and "t_projectId t = Some sel" and "t_state t \<noteq> Done"
  shows "(\<exists>n rest. 0 < n \<and> trace (projectStatusOnChange True remote now sel ProjectDone st)
             = Prompt n # SetTasks # rest)
       \<and> list_all2 (\<lambda>t t'. if t_projectId t = Some sel
                            then t_state t' = Done
                                 \<and> (if t_state t = Done then t' = t else t_doneAt t' = Some now)
                            else t' = t)
           (tasks st) (tasks (final (projectStatusOnChange True remote now sel ProjectDone st)))
       \<and> final (projectStatusOnChange False remote now sel ProjectDone st) = st"
proof -
  have "list_all2 (\<lambda>t t'. if t_projectId t = Some sel
                            then t_state t' = Done
                                 \<and> (if t_state t = Done then t' = t else t_doneAt t' = Some now)
                            else t' = t)
           (tasks st) (tasks (final (projectStatusOnChange True remote now sel ProjectDone st)))"
    unfolding project_cascade_tasks[OF assms]
    by (auto simp: list_all2_map2 list_all2_same markDone_def)
  moreover from project_declined[OF assms, of remote now]
  have "final (projectStatusOnChange False remote now sel ProjectDone st) = st" by auto
  ultimately show ?thesis using project_cascade_trace[OF assms, of remote now] by blast
qed

text \<open>The project \<open>p-work\<close> in the example forest, which has the unfinished task \<open>t-4\<close>.\<close>

theorem C3_witness:
  "exampleTask ''t-4'' (Some ''p-work'') (Some ''t-3'') Active None 10 \<in> set (tasks (exampleState familyTasks []))
   \<and> t_projectId (exampleTask ''t-4'' (Some ''p-work'') (Some ''t-3'') Active None 10) = Some ''p-work''
   \<and> t_state (exampleTask ''t-4'' (Some ''p-work'') (Some ''t-3'') Active None 10) \<noteq> Done
   \<and> list_all2 (\<lambda>t t'. if t_projectId t = Some ''p-work''
                            then t_state t' = Done
                                 \<and> (if t_state t = Done then t' = t else t_doneAt t' = Some ''now'')
                            else t' = t)
           (tasks (exampleState familyTasks []))
           (tasks (final (projectStatusOnChange True acceptAll ''now'' ''p-work'' ProjectDone
                            (exampleState familyTasks []))))
   \<and> final (projectStatusOnChange False acceptAll ''now'' ''p-work'' ProjectDone (exampleState familyTasks []))
       = exampleState familyTasks []"
proof -
  have a: "exampleTask ''t-4'' (Some ''p-work'') (Some ''t-3'') Active None 10 \<in> set (tasks (exampleState familyTasks []))"
    by (simp add: family_tasks familyTasks_def)
  have b: "t_projectId (exampleTask ''t-4'' (Some ''p-work'') (Some ''t-3'') Active None 10) = Some ''p-work''"
    by (simp add: exampleTask_def)
  have c: "t_state (exampleTask ''t-4'' (Some ''p-work'') (Some ''t-3'') Active None 10) \<noteq> Done"
    by (simp add: exampleTask_def)
  from C3_project_cascade[OF a b c, of acceptAll "''now''"] a b c
  show ?thesis by blast
qed

subsection \<open>C5: order of the local update and the remote writes\<close>

text \<open>
  As stated, C5 puts the local update before the remote write for quick add as well.
  Quick add awaits the insert, whose answer carries the identifier of the new task, and
  sets the task list afterwards: the dispatch is the first event of its trace.
\<close>

theorem C5_counterexample:
  "trace (addQuickTask acceptAll ''now'' (exampleState familyTasks ''Buy milk''))
     = [Dispatch (AddTask (js ''Buy milk'') ''p-default'' (Number 20)), SetTasks, SetQuickText, SetView]
   \<and> \<not> localFirst (trace (addQuickTask acceptAll ''now'' (exampleState familyTasks ''Buy milk'')))"
  by (simp add: addQuickTask_def nextOrder_def trim_def js_def isWhiteSpace_def exampleState_def
      familyTasks_def exampleTask_def acceptAll_def localFirst_def Let_def)

text \<open>
  C5 (amended). A task update, with or without cascade, sets the local task list before
  it dispatches any write, and which writes it dispatches does not depend on how the
  store answers: all writes of a cascade leave before any answer is looked at. The
  project handler, too, sets the local task list before the task writes of its
  cascade; the write of the project's own state comes after them and before the
  local project list is set. Quick add of a text that is not blank dispatches the
  insert first and sets the local task list only after the insert resolved; if it is
  rejected the state stays as it was.
\<close>

theorem C5_order_of_local_update_and_remote_writes:
  "localFirst (trace (updateTask stack confirmed remote now i patch st))
   \<and> trace (updateTask stack confirmed remote' now i patch st)
       = trace (updateTask stack confirmed remote now i patch st)
   \<and> (\<exists>pre post. trace (projectStatusOnChange confirmed remote now sel newState st) = pre @ post
         \<and> localFirst pre \<and> SetProjects \<notin> set pre \<and> Dispatch (UpdateProject sel newState) \<notin> set pre
         \<and> (post = [] \<or> post = [Dispatch (UpdateProject sel newState)]
             \<or> post = [Dispatch (UpdateProject sel newState), SetProjects]))
   \<and> (trim (quickText st) \<noteq> [] \<longrightarrow>
        (case addDoc remote (AddTask (trim (quickText st)) ''p-default'' (nextOrder (tasks st))) of
           None \<Rightarrow> addQuickTask remote now st
                    = \<lparr> final = st,
                        trace = [Dispatch (AddTask (trim (quickText st)) ''p-default'' (nextOrder (tasks st)))],
                        raised = Some RemoteRejected \<rparr>
         | Some docId \<Rightarrow> trace (addQuickTask remote now st)
                    = [Dispatch (AddTask (trim (quickText st)) ''p-default'' (nextOrder (tasks st))),
                       SetTasks, SetQuickText, SetView]))"
proof (intro conjI impI)
  show "localFirst (trace (updateTask stack confirmed remote now i patch st))"
    by (rule updateTask_localFirst)
  show "trace (updateTask stack confirmed remote' now i patch st)
       = trace (updateTask stack confirmed remote now i patch st)"
    by (rule updateTask_trace_remote)
  show "\<exists>pre post. trace (projectStatusOnChange confirmed remote now sel newState st) = pre @ post
         \<and> localFirst pre \<and> SetProjects \<notin> set pre \<and> Dispatch (UpdateProject sel newState) \<notin> set pre
         \<and> (post = [] \<or> post = [Dispatch (UpdateProject sel newState)]
             \<or> post = [Dispatch (UpdateProject sel newState), SetProjects])"
    by (rule project_trace_shape)
  assume "trim (quickText st) \<noteq> []"
  then show "case addDoc remote (AddTask (trim (quickText st)) ''p-default'' (nextOrder (tasks st))) of
           None \<Rightarrow> addQuickTask remote now st
                    = \<lparr> final = st,
                        trace = [Dispatch (AddTask (trim (quickText st)) ''p-default'' (nextOrder (tasks st)))],
                        raised = Some RemoteRejected \<rparr>
         | Some docId \<Rightarrow> trace (addQuickTask remote now st)
                    = [Dispatch (AddTask (trim (quickText st)) ''p-default'' (nextOrder (tasks st))),
                       SetTasks, SetQuickText, SetView]"
    by (rule addQuickTask_order)
qed

text \<open>Quick add of \<open>Buy milk\<close>, and the cascade of \<open>t-3\<close>, on the example forest.\<close>

theorem C5_witness:
  "trim (quickText (exampleState familyTasks ''Buy milk'')) \<noteq> []
   \<and> trace (addQuickTask acceptAll ''now'' (exampleState familyTasks ''Buy milk''))
       = [Dispatch (AddTask (js ''Buy milk'') ''p-default'' (Number 20)), SetTasks, SetQuickText, SetView]
   \<and> localFirst (trace (updateTask 2 True acceptAll ''now'' ''t-3'' (statePatch Done)
                          (exampleState familyTasks [])))"
proof -
  have t: "trim (quickText (exampleState familyTasks ''Buy milk'')) = js ''Buy milk''"
    by (simp add: exampleState_def trim_def js_def isWhiteSpace_def)
  have j: "js ''Buy milk'' \<noteq> []" by (simp add: js_def)
  have n: "nextOrder (tasks (exampleState familyTasks ''Buy milk'')) = Number 20"
    by (simp add: nextOrder_def exampleState_def familyTasks_def exampleTask_def)
  have a: "addDoc acceptAll w = Some ''doc-1''" for w by (simp add: acceptAll_def)
  from C5_order_of_local_update_and_remote_writes[of 2 True acceptAll "''now''" "''t-3''"
         "statePatch Done" "exampleState familyTasks []" acceptAll "''p-work''" ProjectDone]
  have 1: "localFirst (trace (updateTask 2 True acceptAll ''now'' ''t-3'' (statePatch Done)
                          (exampleState familyTasks [])))" by blast
  from C5_order_of_local_update_and_remote_writes[of 2 True acceptAll "''now''" "''t-3''"
         "statePatch Done" "exampleState familyTasks ''Buy milk''" acceptAll "''p-work''" ProjectDone]
  have "trim (quickText (exampleState familyTasks ''Buy milk'')) \<noteq> [] \<longrightarrow>
        (case addDoc acceptAll (AddTask (trim (quickText (exampleState familyTasks ''Buy milk''))) ''p-default''
                 (nextOrder (tasks (exampleState familyTasks ''Buy milk'')))) of
           None \<Rightarrow> addQuickTask acceptAll ''now'' (exampleState familyTasks ''Buy milk'')
                    = \<lparr> final = exampleState familyTasks ''Buy milk'',
                        trace = [Dispatch (AddTask (trim (quickText (exampleState familyTasks ''Buy milk''))) ''p-default''
                                   (nextOrder (tasks (exampleState familyTasks ''Buy milk''))))],
                        raised = Some RemoteRejected \<rparr>
         | Some docId \<Rightarrow> trace (addQuickTask acceptAll ''now'' (exampleState familyTasks ''Buy milk''))
                    = [Dispatch (AddTask (trim (quickText (exampleState familyTasks ''Buy milk''))) ''p-default''
                                   (nextOrder (tasks (exampleState familyTasks ''Buy milk'')))),
                       SetTasks, SetQuickText, SetView])" by blast
  then have 2: "trace (addQuickTask acceptAll ''now'' (exampleState familyTasks ''Buy milk''))
       = [Dispatch (AddTask (js ''Buy milk'') ''p-default'' (Number 20)), SetTasks, SetQuickText, SetView]"
    unfolding t n a using j by simp
  from t j 1 2 show ?thesis by simp
qed

end
